theory Spec2Isabelle
  imports Complex_Main
begin

section \<open>The scene-timeline compositor\<close>

text \<open>
  A shallow embedding of \<^verbatim>\<open>core/video_generator.py\<close> (class VideoGenerator) and of the
  parts of \<^verbatim>\<open>core/avatar_video_generator.py\<close> (class AvatarVideoGenerator) that decide
  scene durations, caption timing, caption layout, the visual-source chain, the pane
  widths and the assembly of the timeline.

  Times are Python floats in the source; they are rationals here, so every sum and
  quotient below is exact. Paths and texts are strings.
\<close>

subsection \<open>Scenes and the file system\<close>

text \<open>
  A scene is a Python dict read with \<^verbatim>\<open>scene.get(key)\<close>; a field is \<open>None\<close> when the key is
  missing (or holds Python's None).
\<close>

record scene =
  duration :: "rat option"
  dialogue :: "string option"
  visual :: "string option"
  image_path :: "string option"
  audio_path :: "string option"
  caption_text :: "string option"
  character :: "string option"
  character_gender :: "string option"
  voice_style :: "string option"

text \<open>
  What a file holds, as far as the compositor can tell: audio that decodes to a duration,
  a picture that PIL can open, or anything else.
\<close>

datatype content = Audio rat | Picture | Other

type_synonym filesys = "string \<Rightarrow> content option"

datatype error = DecodeError | ImageError | SynthesisError | ConcatError | EncodeError | IndexError | WriteError

definition path_exists :: "filesys \<Rightarrow> string \<Rightarrow> bool" where
  \<comment> \<open>\<^verbatim>\<open>os.path.exists(p)\<close>\<close>
  "path_exists fs p = (fs p \<noteq> None)"

definition AudioFileClip :: "filesys \<Rightarrow> string \<Rightarrow> error + rat" where
  \<comment> \<open>\<^verbatim>\<open>AudioFileClip(p).duration\<close>: the constructor raises when the file does not decode\<close>
  "AudioFileClip fs p = (case fs p of Some (Audio d) \<Rightarrow> Inr d | _ \<Rightarrow> Inl DecodeError)"

definition Image_open :: "filesys \<Rightarrow> string \<Rightarrow> error + unit" where
  \<comment> \<open>\<^verbatim>\<open>Image.open(p)\<close> raises when the file is not a picture\<close>
  "Image_open fs p = (case fs p of Some Picture \<Rightarrow> Inr () | _ \<Rightarrow> Inl ImageError)"

definition usable_path :: "filesys \<Rightarrow> string option \<Rightarrow> bool" where
  \<comment> \<open>\<^verbatim>\<open>p and os.path.exists(p)\<close>: None and the empty string are falsy\<close>
  "usable_path fs p = (case p of None \<Rightarrow> False | Some q \<Rightarrow> q \<noteq> [] \<and> path_exists fs q)"

subsection \<open>Duration Resolver\<close>

definition DEFAULT_SCENE_DURATION :: rat where
  "DEFAULT_SCENE_DURATION = 5"

definition get_duration :: "scene \<Rightarrow> rat \<Rightarrow> rat" where
  \<comment> \<open>\<^verbatim>\<open>scene.get('duration', dflt)\<close>\<close>
  "get_duration sc dflt = (case duration sc of None \<Rightarrow> dflt | Some d \<Rightarrow> d)"

text \<open>
  The first statements of \<^verbatim>\<open>_create_scene_clip\<close> (video_generator.py, lines 114-126), which
  \<^verbatim>\<open>_create_avatar_scene_clip\<close> (lines 258-268) and \<^verbatim>\<open>_create_regular_scene_clip\<close>
  (lines 357-367) of avatar_video_generator.py repeat word for word:
  \<^verbatim>\<open>
  duration = scene.get('duration', 5)
  if audio_path and os.path.exists(audio_path):
      try:
          temp_audio = AudioFileClip(audio_path)
          duration = temp_audio.duration
          temp_audio.close()
      except Exception as e:
          print(...)
  \<close>
\<close>

definition resolve_duration :: "filesys \<Rightarrow> scene \<Rightarrow> string option \<Rightarrow> rat" where
  "resolve_duration fs sc ap =
     (let duration = get_duration sc 5 in
      if usable_path fs ap then
        (case ap of
           Some p \<Rightarrow>
             (case AudioFileClip fs p of
                Inr actual_audio_duration \<Rightarrow> actual_audio_duration
              | Inl e \<Rightarrow> duration)
         | None \<Rightarrow> duration)
      else duration)"

subsection \<open>Caption Overlay Engine\<close>

text \<open>
  \<^verbatim>\<open>draw.textbbox((0, 0), s, font=font, stroke_width=2)\<close> is PIL's; the font metric is a
  parameter of the model. A box is (left, top, right, bottom).
\<close>

record bbox =
  left :: int
  top :: int
  right :: int
  bottom :: int

type_synonym metric = "string \<Rightarrow> bbox"

definition is_space :: "char \<Rightarrow> bool" where
  \<comment> \<open>Python's \<^verbatim>\<open>str.isspace\<close> on the code points below 256 (a character here is one of
      them): space, 9-13, 28-31, 0x85 and 0xA0\<close>
  "is_space c =
     (let n = of_char c :: nat
      in n = 32 \<or> (9 \<le> n \<and> n \<le> 13) \<or> (28 \<le> n \<and> n \<le> 31) \<or> n = 133 \<or> n = 160)"

fun split_from :: "string \<Rightarrow> string \<Rightarrow> string list" where
  \<comment> \<open>the second argument is the word being read\<close>
  "split_from [] w = (if w = [] then [] else [w])"
| "split_from (c # cs) w =
     (if is_space c then (if w = [] then split_from cs [] else w # split_from cs [])
      else split_from cs (w @ [c]))"

definition str_split :: "string \<Rightarrow> string list" where
  \<comment> \<open>\<^verbatim>\<open>text.split()\<close>: the maximal runs of non-whitespace\<close>
  "str_split s = split_from s []"

definition strip :: "string \<Rightarrow> string" where
  \<comment> \<open>\<^verbatim>\<open>s.strip()\<close>\<close>
  "strip s = rev (dropWhile is_space (rev (dropWhile is_space s)))"

text \<open>
  The packing loop of \<^verbatim>\<open>_add_captions_timed\<close> (video_generator.py lines 385-393,
  avatar_video_generator.py lines 655-663), with the loop variables \<open>lines\<close> and
  \<open>current\<close> as accumulators:
  \<^verbatim>\<open>
  for w in words:
      candidate = (current + ' ' + w).strip()
      bbox = draw.textbbox((0, 0), candidate, font=font, stroke_width=2)
      if bbox[2] <= max_width:
          current = candidate
      else:
          if current:
              lines.append(current)
          current = w
  \<close>
\<close>

fun pack_words :: "metric \<Rightarrow> int \<Rightarrow> string list \<Rightarrow> string list \<Rightarrow> string \<Rightarrow> string list \<times> string" where
  "pack_words m max_width [] lines current = (lines, current)"
| "pack_words m max_width (w # ws) lines current =
     (let candidate = strip (current @ '' '' @ w) in
      if right (m candidate) \<le> max_width then pack_words m max_width ws lines candidate
      else pack_words m max_width ws (if current \<noteq> [] then lines @ [current] else lines) w)"

definition caption_lines :: "metric \<Rightarrow> int \<Rightarrow> string \<Rightarrow> string list" where
  \<comment> \<open>lines 381-395: the bound, the split, the loop and the last line\<close>
  "caption_lines m width text =
     (let max_width = width - 80;
          words = str_split text;
          (lines, current) = pack_words m max_width words [] []
      in if current \<noteq> [] then lines @ [current] else lines)"

fun place_lines :: "metric \<Rightarrow> int \<Rightarrow> int \<Rightarrow> string list \<Rightarrow> (int \<times> int \<times> string) list" where
  \<comment> \<open>lines 397-403: each line drawn at (x, y), centred, lines stacked downwards\<close>
  "place_lines m width y [] = []"
| "place_lines m width y (line # ls) =
     (let b = m line;
          tw = right b - left b;
          x = (width - tw) div 2
      in (x, y, line) # place_lines m width (y + (bottom b - top b) + 6) ls)"

record caption =
  cstart :: rat
  clen :: rat
  drawn :: "(int \<times> int \<times> string) list"
  cpos_y :: int

definition caption_duration :: "filesys \<Rightarrow> scene \<Rightarrow> string option \<Rightarrow> rat" where
  \<comment> \<open>lines 354-368 of \<^verbatim>\<open>_add_captions_timed\<close>; \<^verbatim>\<open>float(...)\<close> is the identity on a number\<close>
  "caption_duration fs sc ap =
     (let duration = get_duration sc DEFAULT_SCENE_DURATION in
      if usable_path fs ap then
        (case ap of
           Some p \<Rightarrow> (case AudioFileClip fs p of Inr d \<Rightarrow> d | Inl e \<Rightarrow> duration)
         | None \<Rightarrow> duration)
      else duration)"

definition path_at :: "string option list \<Rightarrow> nat \<Rightarrow> string option" where
  \<comment> \<open>\<^verbatim>\<open>voiceover_paths[idx] if idx < len(voiceover_paths) else None\<close>\<close>
  "path_at vps idx = (if idx < length vps then vps ! idx else None)"

definition get_dialogue :: "scene \<Rightarrow> string" where
  \<comment> \<open>\<^verbatim>\<open>scene.get('dialogue') or ''\<close>\<close>
  "get_dialogue sc = (case dialogue sc of None \<Rightarrow> [] | Some s \<Rightarrow> s)"

text \<open>
  The scene loop of \<^verbatim>\<open>_add_captions_timed\<close> (lines 350-412), with \<open>idx\<close>,
  \<open>current_time\<close> and \<open>caption_overlays\<close> as accumulators. It returns the overlays
  and the final cursor.
\<close>

fun captions_loop :: "filesys \<Rightarrow> metric \<Rightarrow> int \<times> int \<Rightarrow> string option list \<Rightarrow>
    scene list \<Rightarrow> nat \<Rightarrow> rat \<Rightarrow> caption list \<Rightarrow> caption list \<times> rat" where
  "captions_loop fs m res vps [] idx current_time overlays = (overlays, current_time)"
| "captions_loop fs m res vps (sc # scs) idx current_time overlays =
     (let text = get_dialogue sc;
          duration = caption_duration fs sc (path_at vps idx);
          (width, height) = res;
          overlays' =
            (if text \<noteq> [] then
               overlays @ [\<lparr>cstart = current_time, clen = duration,
                              drawn = place_lines m width 10 (caption_lines m width text),
                              cpos_y = height - 160\<rparr>]
             else overlays)
      in captions_loop fs m res vps scs (idx + 1) (current_time + duration) overlays')"

definition caption_overlays :: "filesys \<Rightarrow> metric \<Rightarrow> int \<times> int \<Rightarrow> scene list \<Rightarrow>
    string option list \<Rightarrow> caption list" where
  "caption_overlays fs m res scenes vps = fst (captions_loop fs m res vps scenes 0 0 [])"

subsection \<open>Avatar Compositor: pane widths\<close>

text \<open>
  \<^verbatim>\<open>AvatarVideoGenerator.__init__\<close>, lines 51-52:
  \<^verbatim>\<open>
  self.avatar_width = self.resolution[0] // 4
  self.content_width = self.resolution[0] - self.avatar_width
  \<close>
  Python's \<^verbatim>\<open>//\<close> on integers rounds towards minus infinity, as \<open>div\<close> on \<open>int\<close> does.
\<close>

definition avatar_width :: "int \<times> int \<Rightarrow> int" where
  "avatar_width res = fst res div 4"

definition content_width :: "int \<times> int \<Rightarrow> int" where
  "content_width res = fst res - avatar_width res"

text \<open>
  The panes of \<^verbatim>\<open>_create_avatar_scene_clip\<close> (lines 293-327): the avatar clip, or its
  placeholder, is \<open>avatar_width\<close> wide at the left edge; the content clip is resized to
  \<open>content_width\<close> and placed at x = \<open>avatar_width\<close>.
\<close>

record panes =
  avatar_pane_x :: int
  avatar_pane_w :: int
  content_pane_x :: int
  content_pane_w :: int

definition avatar_layout :: "int \<times> int \<Rightarrow> panes" where
  "avatar_layout res =
     \<lparr>avatar_pane_x = 0, avatar_pane_w = avatar_width res,
      content_pane_x = avatar_width res, content_pane_w = content_width res\<rparr>"

definition VIDEO_RESOLUTION :: "int \<times> int" where
  \<comment> \<open>config.py, line 21; also \<^verbatim>\<open>VideoGenerator.resolution\<close>\<close>
  "VIDEO_RESOLUTION = (1920, 1080)"

subsection \<open>Collaborators\<close>

text \<open>
  The external services, as deterministic stubs. \<open>tts\<close> stands for
  \<^verbatim>\<open>TTSManager.generate_voiceover\<close>'s speech request (text, gender, voice style): the bytes
  it returns, or \<open>None\<close> when it raises. \<open>image_gen\<close> tells whether requesting, downloading
  and opening an image for a prompt succeeds. \<open>chat\<close> is the chat completion for a user
  message: its content, or \<open>None\<close> when it raises. \<open>writable\<close> tells whether a file can be
  created at a path. \<open>concat_ok\<close>, \<open>crossfade_ok\<close> and \<open>encode_ok\<close> tell whether MoviePy's
  concatenation of image clips, its crossfade effect and the final
  \<^verbatim>\<open>write_videofile\<close> succeed.
\<close>

record collab =
  tts :: "string \<Rightarrow> string \<Rightarrow> string \<Rightarrow> content option"
  image_gen :: "string \<Rightarrow> bool"
  chat :: "string \<Rightarrow> string option"
  writable :: "string \<Rightarrow> bool"
  concat_ok :: bool
  crossfade_ok :: bool
  encode_ok :: bool

fun str_of_nat :: "nat \<Rightarrow> string" where
  \<comment> \<open>\<^verbatim>\<open>str(n)\<close> inside the f-strings\<close>
  "str_of_nat n =
     (if n < 10 then [''0123456789'' ! n]
      else str_of_nat (n div 10) @ [''0123456789'' ! (n mod 10)])"

declare str_of_nat.simps [simp del]

definition os_path_join :: "string \<Rightarrow> string \<Rightarrow> string" where
  "os_path_join a b =
     (if b \<noteq> [] \<and> hd b = CHR ''/'' then b
      else if a = [] \<or> last a = CHR ''/'' then a @ b
      else a @ ''/'' @ b)"

definition DUMMY_IMAGE_DIR :: string where
  "DUMMY_IMAGE_DIR = ''dummy_assets/images''"

definition DUMMY_SPEECH_DIR :: string where
  "DUMMY_SPEECH_DIR = ''dummy_assets/speeches''"

definition write_file :: "collab \<Rightarrow> filesys \<Rightarrow> string \<Rightarrow> content \<Rightarrow> filesys" where
  \<comment> \<open>a write whose failure the caller swallows\<close>
  "write_file c fs p x = (if writable c p then fs(p \<mapsto> x) else fs)"

subsection \<open>Scene Track Builder\<close>

datatype image = Loaded string | Generated string | Fallback string

datatype visual_source = Still image | Sequence "(image \<times> rat) list"

record clip =
  cdur :: rat
  look :: visual_source
  sound :: "string option"
  fade_in :: "rat option"

definition ImageClip :: "image \<Rightarrow> rat \<Rightarrow> clip" where
  \<comment> \<open>\<^verbatim>\<open>ImageClip(np.array(img)).with_duration(duration)\<close>\<close>
  "ImageClip img d = \<lparr>cdur = d, look = Still img, sound = None, fade_in = None\<rparr>"

definition create_fallback_image :: "string \<Rightarrow> image" where
  \<comment> \<open>\<^verbatim>\<open>_create_fallback_image\<close>: a solid background with the description drawn on it\<close>
  "create_fallback_image description = Fallback description"

definition derive_visual_from_dialogue :: "collab \<Rightarrow> string option \<Rightarrow> string option \<Rightarrow> error + string" where
  \<comment> \<open>video_generator.py, lines 187-214\<close>
  "derive_visual_from_dialogue c dlg character_name =
     (let dialogue = strip (case dlg of None \<Rightarrow> [] | Some s \<Rightarrow> s) in
      if dialogue = [] then Inr ''Educational, professional illustration of the lesson topic''
      else
        (let speaker = (case character_name of None \<Rightarrow> [] | Some n \<Rightarrow> if n = [] then [] else '' by '' @ n);
             user = ''Dialogue'' @ speaker @ '':'' @ [CHR 0x0A, CHR 0x0A] @ dialogue @ [CHR 0x0A, CHR 0x0A]
                    @ ''Write ONE ultra-photorealistic prompt sentence that best depicts this dialogue.''
         in case chat c user of
              None \<Rightarrow> Inl SynthesisError
            | Some content \<Rightarrow> Inr (strip content)))"

definition or_else :: "string option \<Rightarrow> string \<Rightarrow> string" where
  \<comment> \<open>\<^verbatim>\<open>scene.get(key, '') or rest\<close>\<close>
  "or_else v rest = (case v of None \<Rightarrow> rest | Some s \<Rightarrow> if s = [] then rest else s)"

definition visual_description_of :: "collab \<Rightarrow> scene \<Rightarrow> string" where
  \<comment> \<open>\<^verbatim>\<open>_create_scene_clip\<close>, lines 129-134\<close>
  "visual_description_of c sc =
     (if or_else (visual sc) [] \<noteq> [] then or_else (visual sc) []
      else
        (case derive_visual_from_dialogue c (dialogue sc) (character sc) of
           Inr d \<Rightarrow> d
         | Inl e \<Rightarrow> or_else (visual sc) (or_else (dialogue sc) ''Educational illustration'')))"

definition single_prompt :: "string \<Rightarrow> string" where
  \<comment> \<open>the prompt of \<^verbatim>\<open>_generate_visual\<close>, lines 221-224\<close>
  "single_prompt description =
     ''Ultra-photorealistic photograph. '' @ description
       @ ''. Cinematic lighting, shallow depth of field, realistic textures, high detail skin, no text, no watermark.''"

definition generate_visual :: "collab \<Rightarrow> filesys \<Rightarrow> string \<Rightarrow> rat \<Rightarrow> string option \<Rightarrow> filesys \<times> clip" where
  \<comment> \<open>\<^verbatim>\<open>_generate_visual\<close>, lines 216-258: one synthesized image, or the placeholder\<close>
  "generate_visual c fs description dur save_path =
     (if image_gen c (single_prompt description) then
        (let fs' = (case save_path of
                      None \<Rightarrow> fs
                    | Some p \<Rightarrow> if p \<noteq> [] then write_file c fs p Picture else fs)
         in (fs', ImageClip (Generated (single_prompt description)) dur))
      else (fs, ImageClip (create_fallback_image description) dur))"

definition num_images_for :: "rat \<Rightarrow> nat" where
  \<comment> \<open>line 271: \<^verbatim>\<open>max(2, min(4, int(total_duration // 2) or 2))\<close>\<close>
  "num_images_for total_duration =
     (let n = \<lfloor>total_duration / 2\<rfloor> in nat (max 2 (min 4 (if n = 0 then 2 else n))))"

definition variant_prompt :: "string \<Rightarrow> nat \<Rightarrow> string" where
  \<comment> \<open>the prompt of variant \<open>k\<close>, lines 278-284\<close>
  "variant_prompt description k =
     (let variant_desc = description @ ''. Variation '' @ str_of_nat (k + 1) @ '', alternate angle or moment''
      in ''Ultra-photorealistic photograph. '' @ variant_desc
           @ ''. Cinematic lighting, shallow depth of field, realistic textures, no text, no watermark.'')"

definition variant_image :: "collab \<Rightarrow> string \<Rightarrow> nat \<Rightarrow> image" where
  \<comment> \<open>lines 276-294: the synthesized variant, or the placeholder when synthesis raises\<close>
  "variant_image c description k =
     (if image_gen c (variant_prompt description k) then Generated (variant_prompt description k)
      else create_fallback_image description)"

text \<open>
  The loop of \<^verbatim>\<open>_generate_visual_sequence\<close> (lines 275-310) over \<open>k\<close> in
  \<^verbatim>\<open>range(num_images)\<close>, with the file system and \<open>subclips\<close> as accumulators. Every
  variant, synthesized or placeholder, is saved.
\<close>

fun variants_loop :: "collab \<Rightarrow> string \<Rightarrow> rat \<Rightarrow> string option \<Rightarrow> nat \<Rightarrow> nat list \<Rightarrow>
    filesys \<Rightarrow> (image \<times> rat) list \<Rightarrow> filesys \<times> (image \<times> rat) list" where
  "variants_loop c description sub_duration save_dir scene_index [] fs subclips = (fs, subclips)"
| "variants_loop c description sub_duration save_dir scene_index (k # ks) fs subclips =
     (let img = variant_image c description k;
          fs' = (case save_dir of
                   None \<Rightarrow> fs
                 | Some d \<Rightarrow>
                     if d \<noteq> [] then
                       write_file c fs
                         (os_path_join d (''scene_'' @ str_of_nat (scene_index + 1) @ ''_var''
                                            @ str_of_nat (k + 1) @ ''.png''))
                         Picture
                     else fs)
      in variants_loop c description sub_duration save_dir scene_index ks fs'
           (subclips @ [(img, sub_duration)]))"

definition generate_visual_sequence :: "collab \<Rightarrow> filesys \<Rightarrow> string \<Rightarrow> rat \<Rightarrow> string option \<Rightarrow> nat \<Rightarrow>
    filesys \<times> (error + clip)" where
  \<comment> \<open>\<^verbatim>\<open>_generate_visual_sequence\<close>, lines 260-315; the concatenation lasts the sum of its parts\<close>
  "generate_visual_sequence c fs description total_duration save_dir scene_index =
     (let num_images = num_images_for total_duration;
          sub_duration = total_duration / of_nat num_images;
          (fs', subclips) = variants_loop c description sub_duration save_dir scene_index
                              [0..<num_images] fs []
      in if concat_ok c then
           (fs', Inr \<lparr>cdur = sum_list (map snd subclips), look = Sequence subclips,
                      sound = None, fade_in = None\<rparr>)
         else (fs', Inl ConcatError))"

definition scene_png :: "nat \<Rightarrow> string" where
  \<comment> \<open>\<^verbatim>\<open>os.path.join(Config.DUMMY_IMAGE_DIR, f"scene_{(scene_index or 0)+1}.png")\<close>\<close>
  "scene_png scene_index = os_path_join DUMMY_IMAGE_DIR (''scene_'' @ str_of_nat (scene_index + 1) @ ''.png'')"

definition base_visual :: "collab \<Rightarrow> filesys \<Rightarrow> scene \<Rightarrow> string \<Rightarrow> rat \<Rightarrow> nat \<Rightarrow> filesys \<times> (error + clip)" where
  \<comment> \<open>\<^verbatim>\<open>_create_scene_clip\<close>, lines 136-167: the visual source\<close>
  "base_visual c fs sc visual_description dur scene_index =
     (if usable_path fs (image_path sc) then
        (case image_path sc of
           Some pre_image_path \<Rightarrow>
             (case Image_open fs pre_image_path of
                Inl e \<Rightarrow> (fs, Inl e)
              | Inr u \<Rightarrow> (fs, Inr (ImageClip (Loaded pre_image_path) dur)))
         | None \<Rightarrow> (fs, Inl ImageError))
      else if dur \<ge> 4 then
        (case generate_visual_sequence c fs visual_description dur (Some DUMMY_IMAGE_DIR) scene_index of
           (fs1, Inr base_clip) \<Rightarrow> (fs1, Inr base_clip)
         | (fs1, Inl e) \<Rightarrow>
             (let (fs2, base_clip) = generate_visual c fs1 visual_description dur (Some (scene_png scene_index))
              in (fs2, Inr base_clip)))
      else
        (let (fs1, base_clip) = generate_visual c fs visual_description dur (Some (scene_png scene_index))
         in (fs1, Inr base_clip)))"

definition create_scene_clip :: "collab \<Rightarrow> filesys \<Rightarrow> scene \<Rightarrow> string option \<Rightarrow> nat \<Rightarrow> filesys \<times> (error + clip)" where
  \<comment> \<open>\<^verbatim>\<open>_create_scene_clip\<close>, lines 112-185; \<open>Inl\<close> is an exception that leaves the function\<close>
  "create_scene_clip c fs sc ap scene_index =
     (let duration = resolve_duration fs sc ap;
          visual_description = visual_description_of c sc
      in case base_visual c fs sc visual_description duration scene_index of
           (fs', Inl e) \<Rightarrow> (fs', Inl e)
         | (fs', Inr base_clip) \<Rightarrow>
             (let base_clip = base_clip\<lparr>cdur := duration\<rparr> in
              if usable_path fs' ap then
                (case ap of
                   Some p \<Rightarrow>
                     (case AudioFileClip fs' p of
                        Inl e \<Rightarrow> (fs', Inl e)
                      | Inr d \<Rightarrow> (fs', Inr (base_clip\<lparr>sound := Some p\<rparr>)))
                 | None \<Rightarrow> (fs', Inr base_clip))
              else (fs', Inr base_clip)))"

subsection \<open>Transition Stitcher\<close>

text \<open>
  The crossfade loop of \<^verbatim>\<open>generate\<close> (video_generator.py, lines 73-93; the same loop is
  in \<^verbatim>\<open>create_avatar_video\<close>, lines 149-169) over \<^verbatim>\<open>clips[1:]\<close>, with
  \<open>final_clips\<close> as accumulator. A crossfade that raises leaves the clip as it was.
\<close>

definition transition_duration :: rat where
  "transition_duration = 1 / 2"

fun crossfade_loop :: "collab \<Rightarrow> clip list \<Rightarrow> clip list \<Rightarrow> clip list" where
  "crossfade_loop c [] final_clips = final_clips"
| "crossfade_loop c (clip_i # rest) final_clips =
     (let prev_clip = last final_clips;
          curr_clip =
            (if cdur prev_clip > transition_duration \<and> cdur clip_i > transition_duration
                \<and> crossfade_ok c
             then clip_i\<lparr>fade_in := Some transition_duration\<rparr>
             else clip_i)
      in crossfade_loop c rest (final_clips @ [curr_clip]))"

text \<open>
  MoviePy's \<^verbatim>\<open>concatenate_videoclips(clips)\<close> with its default padding 0 plays the clips
  one after the other: clip \<open>i\<close> starts at the sum of the durations before it and the
  result lasts the sum of all durations. A track is the list of (start, clip) and the
  declared duration.
\<close>

record track =
  segments :: "(rat \<times> clip) list"
  tdur :: rat

fun place_clips :: "rat \<Rightarrow> clip list \<Rightarrow> (rat \<times> clip) list" where
  "place_clips t [] = []"
| "place_clips t (x # xs) = (t, x) # place_clips (t + cdur x) xs"

definition concatenate_videoclips :: "clip list \<Rightarrow> track" where
  "concatenate_videoclips clips =
     \<lparr>segments = place_clips 0 clips, tdur = sum_list (map cdur clips)\<rparr>"

definition stitch :: "collab \<Rightarrow> clip list \<Rightarrow> track option" where
  \<comment> \<open>lines 68-97; \<open>None\<close> is \<^verbatim>\<open>clips[0] if clips else None\<close> on no clips\<close>
  "stitch c clips =
     (case clips of
        [] \<Rightarrow> None
      | first # rest \<Rightarrow>
          if length clips > 1 then Some (concatenate_videoclips (crossfade_loop c rest [first]))
          else Some \<lparr>segments = [(0, first)], tdur = cdur first\<rparr>)"

subsection \<open>Timeline Assembler\<close>

record timeline =
  video :: track
  overlays :: "caption list"

definition add_captions_timed :: "filesys \<Rightarrow> metric \<Rightarrow> int \<times> int \<Rightarrow> track \<Rightarrow> scene list \<Rightarrow>
    string option list \<Rightarrow> timeline" where
  \<comment> \<open>\<^verbatim>\<open>_add_captions_timed\<close>: the video alone, or \<^verbatim>\<open>CompositeVideoClip([video] + overlays)\<close>\<close>
  "add_captions_timed fs m res v scenes vps =
     \<lparr>video = v, overlays = caption_overlays fs m res scenes vps\<rparr>"

definition timeline_duration :: "timeline \<Rightarrow> rat" where
  \<comment> \<open>a CompositeVideoClip lasts until the latest end of its clips\<close>
  "timeline_duration tline =
     foldr max (map (\<lambda>cap. cstart cap + clen cap) (overlays tline)) (tdur (video tline))"

definition get_or :: "string option \<Rightarrow> string \<Rightarrow> string" where
  \<comment> \<open>\<^verbatim>\<open>scene.get(key, dflt)\<close>\<close>
  "get_or v dflt = (case v of None \<Rightarrow> dflt | Some s \<Rightarrow> s)"

definition generate_voiceover :: "collab \<Rightarrow> filesys \<Rightarrow> string \<Rightarrow> string \<Rightarrow> string \<Rightarrow> string \<Rightarrow>
    filesys \<times> (error + string)" where
  \<comment> \<open>tts_manager.py, lines 53-70: the speech request, then the bytes written to the path\<close>
  "generate_voiceover c fs text gender style output_path =
     (case tts c text gender style of
        None \<Rightarrow> (fs, Inl SynthesisError)
      | Some bytes \<Rightarrow>
          if writable c output_path then (fs(output_path \<mapsto> bytes), Inr output_path)
          else (fs, Inl WriteError))"

text \<open>The first loop of \<^verbatim>\<open>generate\<close> (lines 32-51), building \<open>voiceover_paths\<close>.\<close>

fun voiceover_loop :: "collab \<Rightarrow> scene list \<Rightarrow> nat \<Rightarrow> filesys \<Rightarrow> string option list \<Rightarrow>
    filesys \<times> string option list" where
  "voiceover_loop c [] i fs voiceover_paths = (fs, voiceover_paths)"
| "voiceover_loop c (sc # scs) i fs voiceover_paths =
     (if usable_path fs (audio_path sc) then
        voiceover_loop c scs (i + 1) fs (voiceover_paths @ [audio_path sc])
      else if get_dialogue sc \<noteq> [] then
        (let target_audio_path = os_path_join DUMMY_SPEECH_DIR (''scene_'' @ str_of_nat (i + 1) @ ''.mp3'')
         in case generate_voiceover c fs (get_dialogue sc) (get_or (character_gender sc) ''Female'')
                   (get_or (voice_style sc) ''Professional'') target_audio_path of
              (fs', Inr p) \<Rightarrow> voiceover_loop c scs (i + 1) fs' (voiceover_paths @ [Some target_audio_path])
            | (fs', Inl e) \<Rightarrow> voiceover_loop c scs (i + 1) fs' (voiceover_paths @ [None]))
      else voiceover_loop c scs (i + 1) fs (voiceover_paths @ [None]))"

text \<open>
  The second loop (lines 55-61): a scene whose clip raises is printed and skipped.
  \<^verbatim>\<open>voiceover_paths[i]\<close> out of range would raise inside the \<^verbatim>\<open>try\<close>.
\<close>

fun clips_loop :: "collab \<Rightarrow> string option list \<Rightarrow> scene list \<Rightarrow> nat \<Rightarrow> filesys \<Rightarrow> clip list \<Rightarrow>
    filesys \<times> clip list" where
  "clips_loop c vps [] i fs clips = (fs, clips)"
| "clips_loop c vps (sc # scs) i fs clips =
     (case (if i < length vps then create_scene_clip c fs sc (vps ! i) i else (fs, Inl IndexError)) of
        (fs', Inr clip) \<Rightarrow> clips_loop c vps scs (i + 1) fs' (clips @ [clip])
      | (fs', Inl e) \<Rightarrow> clips_loop c vps scs (i + 1) fs' clips)"

text \<open>A script is read only through \<^verbatim>\<open>script.get('scenes', [])\<close>: \<open>None\<close> is a missing key.\<close>

type_synonym script = "scene list option"

record render =
  location :: string
  film :: timeline

text \<open>
  \<^verbatim>\<open>generate\<close> (lines 24-110). \<open>rnd\<close> is \<^verbatim>\<open>os.urandom(4).hex()\<close>, \<open>m\<close> the font metric.
  The result is the file system left behind and either an exception, or \<open>None\<close>, or the
  path returned together with the timeline that was written there.
\<close>

definition generate :: "collab \<Rightarrow> metric \<Rightarrow> filesys \<Rightarrow> string \<Rightarrow> script \<Rightarrow> int \<Rightarrow>
    filesys \<times> (error + render option)" where
  "generate c m fs rnd scr target_duration =
     (let scs = (case scr of None \<Rightarrow> [] | Some l \<Rightarrow> l) in
      if scs = [] then (fs, Inr None)
      else
        (let output_path = ''output_video_'' @ rnd @ ''.mp4'';
             (fs1, voiceover_paths) = voiceover_loop c scs 0 fs [];
             (fs2, clips) = clips_loop c voiceover_paths scs 0 fs1 []
         in if clips = [] then (fs2, Inr None)
            else
              (case stitch c clips of
                 None \<Rightarrow> (fs2, Inr None)
               | Some final_video \<Rightarrow>
                   (let final = add_captions_timed fs2 m VIDEO_RESOLUTION final_video scs voiceover_paths
                    in if encode_ok c then
                         (fs2(output_path \<mapsto> Other),
                          Inr (Some \<lparr>location = output_path, film = final\<rparr>))
                       else (fs2, Inl EncodeError)))))"

definition total_duration :: "filesys \<times> (error + render option) \<Rightarrow> rat option" where
  \<comment> \<open>the duration of the rendered timeline, when there is one\<close>
  "total_duration r =
     (case snd r of Inr (Some out) \<Rightarrow> Some (timeline_duration (film out)) | _ \<Rightarrow> None)"

subsection \<open>Concrete inputs\<close>

definition blank_scene :: scene where
  "blank_scene =
     \<lparr>duration = None, dialogue = None, visual = None, image_path = None, audio_path = None,
      caption_text = None, character = None, character_gender = None, voice_style = None\<rparr>"

definition no_files :: filesys where
  "no_files = (\<lambda>p. None)"

definition one_audio :: "string \<Rightarrow> rat \<Rightarrow> filesys" where
  "one_audio p d = no_files(p \<mapsto> Audio d)"

definition mono_metric :: metric where
  \<comment> \<open>a fixed-pitch font: ten units a character\<close>
  "mono_metric s = \<lparr>left = 0, top = 0, right = 10 * int (length s), bottom = 20\<rparr>"

text \<open>
  The caption clip that the loop body builds for one scene at cursor \<open>t\<close>
  (lines 372-410: the image, \<^verbatim>\<open>with_start(current_time).with_duration(duration)\<close>, the
  position).
\<close>

definition caption_of :: "filesys \<Rightarrow> metric \<Rightarrow> int \<times> int \<Rightarrow> scene \<Rightarrow> string option \<Rightarrow> rat \<Rightarrow> caption" where
  "caption_of fs m res sc ap t =
     \<lparr>cstart = t, clen = caption_duration fs sc ap,
      drawn = place_lines m (fst res) 10 (caption_lines m (fst res) (get_dialogue sc)),
      cpos_y = snd res - 160\<rparr>"

definition three_scenes :: "scene list" where
  "three_scenes =
     [blank_scene\<lparr>duration := Some 5, dialogue := Some ''one''\<rparr>,
      blank_scene\<lparr>duration := Some 3\<rparr>,
      blank_scene\<lparr>duration := Some 5, dialogue := Some ''Hello world''\<rparr>]"

definition stub :: collab where
  \<comment> \<open>every service succeeds; speech always lasts 2\<close>
  "stub =
     \<lparr>tts = (\<lambda>text gender style. Some (Audio 2)), image_gen = (\<lambda>prompt. True),
      chat = (\<lambda>user. Some ''a classroom''), writable = (\<lambda>p. True),
      concat_ok = True, crossfade_ok = True, encode_ok = True\<rparr>"

definition corrupt_image_script :: script where
  \<comment> \<open>the first scene names a pre-supplied image that is not a picture\<close>
  "corrupt_image_script =
     Some [blank_scene\<lparr>duration := Some 5, dialogue := Some ''A'', visual := Some ''v'',
                        image_path := Some ''bad.png''\<rparr>,
           blank_scene\<lparr>duration := Some 5, dialogue := Some ''B'', visual := Some ''v''\<rparr>]"

definition bad_png :: filesys where
  "bad_png = no_files(''bad.png'' \<mapsto> Other)"

definition cross_reference_script :: script where
  \<comment> \<open>the first scene names as its audio the file that the second scene's speech is written to\<close>
  "cross_reference_script =
     Some [blank_scene\<lparr>duration := Some 5, visual := Some ''v'',
                        audio_path := Some ''dummy_assets/speeches/scene_2.mp3''\<rparr>,
           blank_scene\<lparr>duration := Some 5, dialogue := Some ''hi'', visual := Some ''v''\<rparr>]"

definition visual_of :: "filesys \<times> (error + clip) \<Rightarrow> visual_source option" where
  \<comment> \<open>the visual source of the clip a builder returned, \<open>None\<close> when it raised\<close>
  "visual_of r = (case snd r of Inr cl \<Rightarrow> Some (look cl) | Inl e \<Rightarrow> None)"

definition one_picture :: "string \<Rightarrow> filesys" where
  "one_picture p = no_files(p \<mapsto> Picture)"

definition primary_times :: "filesys \<times> (error + render option) \<Rightarrow> (rat \<times> rat) list" where
  \<comment> \<open>start and duration of every clip of the primary track of a result\<close>
  "primary_times r =
     (case snd r of
        Inr (Some out) \<Rightarrow> map (\<lambda>(t, cl). (t, cdur cl)) (segments (video (film out)))
      | _ \<Rightarrow> [])"

definition caption_times :: "filesys \<times> (error + render option) \<Rightarrow> (rat \<times> rat \<times> string list) list" where
  \<comment> \<open>start, duration and text lines of every caption of a result\<close>
  "caption_times r =
     (case snd r of
        Inr (Some out) \<Rightarrow>
          map (\<lambda>cap. (cstart cap, clen cap, map (\<lambda>(x, y, line). line) (drawn cap))) (overlays (film out))
      | _ \<Rightarrow> [])"

definition two_clips :: "clip list" where
  "two_clips = [ImageClip (Fallback ''a'') 3, ImageClip (Fallback ''b'') 2]"

text \<open>
  In the words of the specification: the probed duration of the scene's audio, when the
  audio exists and is probeable.
\<close>

definition probed_audio :: "filesys \<Rightarrow> string option \<Rightarrow> rat option" where
  "probed_audio fs ap =
     (case ap of
        None \<Rightarrow> None
      | Some p \<Rightarrow> if p = [] then None else (case fs p of Some (Audio d) \<Rightarrow> Some d | _ \<Rightarrow> None))"

text \<open>
  In the words of the specification: greedily pack words into lines bounded by \<open>b\<close>; when
  adding the next word would exceed the bound, start a new line before that word. Here a
  line is the list of its words, \<open>cur\<close> the line being filled, and a line is measured as
  its words joined by single spaces.
\<close>

fun join_words :: "string list \<Rightarrow> string" where
  "join_words [] = []"
| "join_words [w] = w"
| "join_words (w # v # ws) = w @ '' '' @ join_words (v # ws)"

fun pack_groups :: "metric \<Rightarrow> int \<Rightarrow> string list \<Rightarrow> string list \<Rightarrow> string list list" where
  "pack_groups m b cur [] = (if cur = [] then [] else [cur])"
| "pack_groups m b cur (w # ws) =
     (if cur = [] \<or> right (m (join_words (cur @ [w]))) \<le> b then pack_groups m b (cur @ [w]) ws
      else cur # pack_groups m b [w] ws)"

definition stroke_metric :: metric where
  \<comment> \<open>the fixed-pitch font with a stroke of 2 drawn around the text box\<close>
  "stroke_metric s = \<lparr>left = - 2, top = - 2, right = 10 * int (length s) + 2, bottom = 22\<rparr>"

text \<open>Two file systems agree on a set of paths.\<close>

definition agree :: "string set \<Rightarrow> filesys \<Rightarrow> filesys \<Rightarrow> bool" where
  "agree A s s' = (\<forall>p\<in>A. s p = s' p)"

definition junk_png :: filesys where
  \<comment> \<open>the place of the second scene's generated image holds something that is not a picture\<close>
  "junk_png = no_files(''dummy_assets/images/scene_2.png'' \<mapsto> Other)"

definition junk_png_script :: script where
  \<comment> \<open>the first scene names that file as its pre-supplied image\<close>
  "junk_png_script =
     Some [blank_scene\<lparr>duration := Some 5, visual := Some ''v'',
                        image_path := Some ''dummy_assets/images/scene_2.png''\<rparr>,
           blank_scene\<lparr>duration := Some 3, visual := Some ''v''\<rparr>]"

definition steady_scenes :: "scene list" where
  \<comment> \<open>the first scene brings its own audio, the second has its speech synthesized\<close>
  "steady_scenes =
     [blank_scene\<lparr>duration := Some 5, dialogue := Some ''one'', visual := Some ''v'',
                   audio_path := Some ''a.mp3''\<rparr>,
      blank_scene\<lparr>duration := Some 5, dialogue := Some ''hi'', visual := Some ''v''\<rparr>]"

section \<open>Properties\<close>

subsection \<open>Duration Resolver\<close>

lemma caption_duration_eq: "caption_duration fs sc ap = resolve_duration fs sc ap"
  by (simp add: caption_duration_def resolve_duration_def DEFAULT_SCENE_DURATION_def)

text \<open>
  C1. When the audio path is set, exists and decodes, the resolved duration is the probed
  duration, whatever the nominal duration is (no blending, no clamping). When the path is
  unset, empty or names no file, or when decoding fails, the resolved duration is the
  nominal one, \<^verbatim>\<open>scene.get('duration', 5)\<close>.
\<close>

theorem C1_resolved_duration:
  "(ap = Some p \<and> p \<noteq> [] \<and> path_exists fs p \<and> AudioFileClip fs p = Inr d
      \<longrightarrow> resolve_duration fs sc ap = d) \<and>
   (\<not> usable_path fs ap \<longrightarrow> resolve_duration fs sc ap = get_duration sc 5) \<and>
   (ap = Some p \<and> AudioFileClip fs p = Inl e \<longrightarrow> resolve_duration fs sc ap = get_duration sc 5)"
  by (auto simp: resolve_duration_def usable_path_def Let_def)

theorem C1_witness:
  "resolve_duration (one_audio ''a.mp3'' 40) (blank_scene\<lparr>duration := Some 5\<rparr>) (Some ''a.mp3'') = 40 \<and>
   resolve_duration (one_audio ''a.mp3'' 40) (blank_scene\<lparr>duration := Some 5\<rparr>) None = 5 \<and>
   resolve_duration (no_files(''a.mp3'' \<mapsto> Other)) (blank_scene\<lparr>duration := Some 5\<rparr>) (Some ''a.mp3'') = 5"
  using C1_resolved_duration [of "Some ''a.mp3''" "''a.mp3''" "one_audio ''a.mp3'' 40" 40 "blank_scene\<lparr>duration := Some 5\<rparr>"]
        C1_resolved_duration [of None "''a.mp3''" "one_audio ''a.mp3'' 40" 40 "blank_scene\<lparr>duration := Some 5\<rparr>"]
        C1_resolved_duration [of "Some ''a.mp3''" "''a.mp3''" "no_files(''a.mp3'' \<mapsto> Other)" 40 "blank_scene\<lparr>duration := Some 5\<rparr>" DecodeError]
  by (simp add: one_audio_def no_files_def blank_scene_def path_exists_def AudioFileClip_def usable_path_def get_duration_def)

text \<open>
  C6 as stated fails: the resolver has no guard. A nominal duration of zero with no audio
  is resolved to zero, and so is a nominal duration of 5 with probeable audio of length
  zero.
\<close>

theorem C6_counterexample:
  "\<not> 0 < resolve_duration no_files (blank_scene\<lparr>duration := Some 0\<rparr>) None \<and>
   \<not> 0 < resolve_duration (one_audio ''a.mp3'' 0) (blank_scene\<lparr>duration := Some 5\<rparr>) (Some ''a.mp3'')"
  by (simp add: resolve_duration_def usable_path_def get_duration_def blank_scene_def
        one_audio_def no_files_def path_exists_def AudioFileClip_def)

text \<open>
  C6, amended. The resolver's output is strictly greater than zero exactly when the value
  it selects is. With audio that exists and is probeable this is the probed duration,
  whatever the nominal duration (zero, negative or missing). Without such audio it is
  the nominal duration, returned unchanged: a missing one is the default 5, so positive;
  a zero or negative one gives a zero or negative output.
\<close>

theorem C6_positive_iff:
  "(0 < resolve_duration fs sc ap \<longleftrightarrow>
      (case probed_audio fs ap of
         Some d \<Rightarrow> 0 < d
       | None \<Rightarrow> (case duration sc of None \<Rightarrow> True | Some n \<Rightarrow> 0 < n))) \<and>
   (probed_audio fs ap = None \<longrightarrow>
      resolve_duration fs sc ap = (case duration sc of None \<Rightarrow> 5 | Some n \<Rightarrow> n))"
  by (auto simp: resolve_duration_def probed_audio_def usable_path_def path_exists_def
        get_duration_def AudioFileClip_def Let_def split: option.splits content.splits)

theorem C6_witness:
  "0 < resolve_duration (one_audio ''a.mp3'' 3) (blank_scene\<lparr>duration := Some (- 7)\<rparr>) (Some ''a.mp3'') \<and>
   0 < resolve_duration no_files blank_scene None \<and>
   resolve_duration no_files (blank_scene\<lparr>duration := Some (- 7)\<rparr>) None = - 7"
  using C6_positive_iff [of "one_audio ''a.mp3'' 3" "blank_scene\<lparr>duration := Some (- 7)\<rparr>" "Some ''a.mp3''"]
        C6_positive_iff [of no_files blank_scene None]
        C6_positive_iff [of no_files "blank_scene\<lparr>duration := Some (- 7)\<rparr>" None]
  by (simp add: probed_audio_def one_audio_def no_files_def blank_scene_def)

subsection \<open>Caption Overlay Engine\<close>

lemma captions_loop_Cons:
  "captions_loop fs m res vps (sc # scs) idx t ovs =
     captions_loop fs m res vps scs (Suc idx) (t + caption_duration fs sc (path_at vps idx))
       (if get_dialogue sc \<noteq> [] then ovs @ [caption_of fs m res sc (path_at vps idx) t] else ovs)"
  by (cases res) (simp add: caption_of_def Let_def)

lemma captions_loop_drop:
  "idx \<le> length scenes \<Longrightarrow>
   captions_loop fs m res vps (drop idx scenes) idx t ovs =
     (ovs @ map (\<lambda>i. caption_of fs m res (scenes ! i) (path_at vps i)
                        (t + sum_list (map (\<lambda>j. caption_duration fs (scenes ! j) (path_at vps j)) [idx..<i])))
                (filter (\<lambda>i. get_dialogue (scenes ! i) \<noteq> []) [idx..<length scenes]),
      t + sum_list (map (\<lambda>j. caption_duration fs (scenes ! j) (path_at vps j)) [idx..<length scenes]))"
proof (induction "length scenes - idx" arbitrary: idx t ovs)
  case 0
  then show ?case by simp
next
  case (Suc n)
  then have lt: "idx < length scenes" by simp
  then have dr: "drop idx scenes = scenes ! idx # drop (Suc idx) scenes"
    by (simp add: Cons_nth_drop_Suc)
  have up: "[idx..<length scenes] = idx # [Suc idx..<length scenes]"
    using lt by (simp add: upt_conv_Cons)
  let ?D = "\<lambda>j. caption_duration fs (scenes ! j) (path_at vps j)"
  have shift: "\<And>i. i \<in> set [Suc idx..<length scenes] \<Longrightarrow>
      t + ?D idx + sum_list (map ?D [Suc idx..<i]) = t + sum_list (map ?D [idx..<i])"
    by (simp add: upt_conv_Cons)
  have IH: "\<And>t ovs. captions_loop fs m res vps (drop (Suc idx) scenes) (Suc idx) t ovs =
     (ovs @ map (\<lambda>i. caption_of fs m res (scenes ! i) (path_at vps i)
                        (t + sum_list (map ?D [Suc idx..<i])))
                (filter (\<lambda>i. get_dialogue (scenes ! i) \<noteq> []) [Suc idx..<length scenes]),
      t + sum_list (map ?D [Suc idx..<length scenes]))"
    using Suc.hyps(1)[of "Suc idx"] Suc.hyps(2) lt by simp
  have mp: "map (\<lambda>i. caption_of fs m res (scenes ! i) (path_at vps i) (t + ?D idx + sum_list (map ?D [Suc idx..<i])))
                (filter (\<lambda>i. get_dialogue (scenes ! i) \<noteq> []) [Suc idx..<length scenes])
          = map (\<lambda>i. caption_of fs m res (scenes ! i) (path_at vps i) (t + sum_list (map ?D [idx..<i])))
                (filter (\<lambda>i. get_dialogue (scenes ! i) \<noteq> []) [Suc idx..<length scenes])"
    by (rule map_cong) (auto simp: shift)
  show ?case
    apply (subst dr)
    apply (subst up)+
    apply (simp only: captions_loop_Cons IH mp)
    apply (simp add: add.assoc)
    done
qed

text \<open>
  C2. The overlays are, in scene order, exactly one caption for each scene whose dialogue
  is not empty; the caption of scene \<open>i\<close> starts at the sum of the resolved durations of
  the scenes before \<open>i\<close> (all of them, with or without dialogue) and lasts the resolved
  duration of scene \<open>i\<close>. The cursor ends at the sum over all scenes.
\<close>

theorem C2_caption_timing:
  "caption_overlays fs m res scenes vps =
     map (\<lambda>i. caption_of fs m res (scenes ! i) (path_at vps i)
                 (sum_list (map (\<lambda>j. resolve_duration fs (scenes ! j) (path_at vps j)) [0..<i])))
         (filter (\<lambda>i. get_dialogue (scenes ! i) \<noteq> []) [0..<length scenes]) \<and>
   snd (captions_loop fs m res vps scenes 0 0 []) =
     sum_list (map (\<lambda>j. resolve_duration fs (scenes ! j) (path_at vps j)) [0..<length scenes]) \<and>
   cstart (caption_of fs m res sc ap t) = t \<and>
   clen (caption_of fs m res sc ap t) = resolve_duration fs sc ap"
  using captions_loop_drop [of 0 scenes fs m res vps 0 "[]"]
  by (simp add: caption_overlays_def caption_duration_eq caption_of_def)

lemma caption_timing_example:
  "map (\<lambda>c. (cstart c, clen c))
     (caption_overlays (one_audio ''a.mp3'' 2) mono_metric (130, 200) three_scenes [Some ''a.mp3'', None])
    = [(0, 2), (5, 5)]"
  by (simp add: caption_overlays_def three_scenes_def blank_scene_def get_dialogue_def
        caption_duration_def path_at_def usable_path_def path_exists_def one_audio_def no_files_def
        AudioFileClip_def get_duration_def DEFAULT_SCENE_DURATION_def)

text \<open>
  C10. The caption engine never reads \<^verbatim>\<open>caption_text\<close>: whatever override the scenes
  carry, the overlays (their times and their drawn text, which \<open>caption_of\<close> takes from
  the dialogue) are the same.
\<close>

theorem C10_caption_text_unread:
  "caption_overlays fs m res (map (\<lambda>sc. sc\<lparr>caption_text := override sc\<rparr>) scenes) vps =
   caption_overlays fs m res scenes vps"
proof -
  have "captions_loop fs m res vps (map (\<lambda>sc. sc\<lparr>caption_text := override sc\<rparr>) scs) idx t ovs =
        captions_loop fs m res vps scs idx t ovs" for scs idx t ovs
    by (induction scs arbitrary: idx t ovs)
       (simp_all add: captions_loop_Cons caption_of_def get_dialogue_def caption_duration_def get_duration_def)
  then show ?thesis by (simp add: caption_overlays_def)
qed

subsection \<open>Avatar Compositor\<close>

text \<open>
  C7 as stated fails: the avatar width is an integer quotient, so on a canvas whose width
  is not a multiple of 4 the ratio is not 0.25 (1922 gives 480).
\<close>

theorem C7_counterexample:
  "\<not> (of_int (avatar_pane_w (avatar_layout (1922, 1080))) / of_int 1922 = (1 / 4 :: rat))"
  by (simp add: avatar_layout_def avatar_width_def)

text \<open>
  C7, amended. The avatar pane is \<open>width div 4\<close> wide, the content pane takes the rest and
  starts where the avatar pane ends, so the two widths always sum to the canvas width.
  On a canvas of non-zero width the ratios are exactly 1/4 and 3/4 if and only if the
  width is a multiple of 4, as the configured 1920 is.
\<close>

theorem C7_pane_widths:
  "avatar_pane_w (avatar_layout res) = fst res div 4 \<and>
   avatar_pane_w (avatar_layout res) + content_pane_w (avatar_layout res) = fst res \<and>
   content_pane_x (avatar_layout res) = avatar_pane_x (avatar_layout res) + avatar_pane_w (avatar_layout res) \<and>
   (fst res \<noteq> 0 \<longrightarrow>
      ((of_int (avatar_pane_w (avatar_layout res)) / of_int (fst res) = (1 / 4 :: rat)) = (4 dvd fst res)) \<and>
      ((of_int (content_pane_w (avatar_layout res)) / of_int (fst res) = (3 / 4 :: rat)) = (4 dvd fst res)))"
proof -
  obtain W H where res: "res = (W, H)" by (cases res)
  have a: "W \<noteq> 0 \<Longrightarrow> (of_int (W div 4) / of_int W = (1 / 4 :: rat)) = (4 dvd W)"
  proof -
    assume nz: "W \<noteq> 0"
    have "(of_int (W div 4) / of_int W = (1 / 4 :: rat)) = ((of_int (4 * (W div 4)) :: rat) = of_int W)"
      using nz by (auto simp: field_simps)
    also have "\<dots> = (4 * (W div 4) = W)" by (simp only: of_int_eq_iff)
    also have "\<dots> = (4 dvd W)" by presburger
    finally show ?thesis .
  qed
  have b: "W \<noteq> 0 \<Longrightarrow> (of_int (W - W div 4) / of_int W = (3 / 4 :: rat)) = (4 dvd W)"
  proof -
    assume nz: "W \<noteq> 0"
    have "(of_int (W - W div 4) / of_int W = (3 / 4 :: rat)) = ((of_int (4 * (W - W div 4)) :: rat) = of_int (3 * W))"
      using nz by (auto simp: field_simps)
    also have "\<dots> = (4 * (W - W div 4) = 3 * W)" by (simp only: of_int_eq_iff)
    also have "\<dots> = (4 dvd W)" by presburger
    finally show ?thesis .
  qed
  show ?thesis using a b by (simp add: res avatar_layout_def avatar_width_def content_width_def)
qed

theorem C7_witness:
  "fst VIDEO_RESOLUTION \<noteq> 0 \<and> 4 dvd fst VIDEO_RESOLUTION \<and>
   of_int (avatar_pane_w (avatar_layout VIDEO_RESOLUTION)) / of_int (fst VIDEO_RESOLUTION) = (1 / 4 :: rat) \<and>
   of_int (content_pane_w (avatar_layout VIDEO_RESOLUTION)) / of_int (fst VIDEO_RESOLUTION) = (3 / 4 :: rat)"
proof -
  have nz: "fst VIDEO_RESOLUTION \<noteq> 0" by (simp add: VIDEO_RESOLUTION_def)
  have d: "4 dvd fst VIDEO_RESOLUTION" by (simp add: VIDEO_RESOLUTION_def)
  from nz d C7_pane_widths [of VIDEO_RESOLUTION] show ?thesis by blast
qed

subsection \<open>Caption layout\<close>

text \<open>
  The words that \<open>str_split\<close> returns are not empty and hold no white space, so the
  candidate line \<^verbatim>\<open>(current + ' ' + w).strip()\<close> is the words of the line joined by
  single spaces, and the packing loop is the greedy packing \<open>pack_groups\<close>.
\<close>

lemma split_from_words:
  "\<forall>c\<in>set acc. \<not> is_space c \<Longrightarrow>
   \<forall>w\<in>set (split_from s acc). w \<noteq> [] \<and> (\<forall>c\<in>set w. \<not> is_space c)"
proof (induction s arbitrary: acc)
  case Nil
  then show ?case by simp
next
  case (Cons a s)
  show ?case
  proof (cases "is_space a")
    case True
    have e: "\<forall>w\<in>set (split_from s []). w \<noteq> [] \<and> (\<forall>c\<in>set w. \<not> is_space c)"
      using Cons.IH[of "[]"] by simp
    show ?thesis
    proof (cases "acc = []")
      case True
      with \<open>is_space a\<close> e show ?thesis by simp
    next
      case False
      with \<open>is_space a\<close> e Cons.prems show ?thesis by simp
    qed
  next
    case False
    have "\<forall>c\<in>set (acc @ [a]). \<not> is_space c" using Cons.prems False by simp
    from Cons.IH[OF this] False show ?thesis by simp
  qed
qed

lemma str_split_words:
  "w \<in> set (str_split s) \<Longrightarrow> w \<noteq> [] \<and> (\<forall>c\<in>set w. \<not> is_space c)"
  unfolding str_split_def using split_from_words[of "[]" s] by simp

lemma dropWhile_head: "xs \<noteq> [] \<Longrightarrow> \<not> P (hd xs) \<Longrightarrow> dropWhile P xs = xs"
  by (cases xs) simp_all

lemma strip_id:
  assumes "s \<noteq> []" "\<not> is_space (hd s)" "\<not> is_space (last s)"
  shows "strip s = s"
proof -
  have a: "dropWhile is_space s = s" using assms(1,2) by (rule dropWhile_head)
  have "dropWhile is_space (rev s) = rev s"
    using assms(1,3) by (intro dropWhile_head) (simp_all add: hd_rev)
  with a show ?thesis by (simp add: strip_def)
qed

lemma join_words_snoc: "cur \<noteq> [] \<Longrightarrow> join_words (cur @ [w]) = join_words cur @ '' '' @ w"
  by (induction cur rule: join_words.induct) simp_all

lemma join_words_ends:
  "cur \<noteq> [] \<Longrightarrow> \<forall>w\<in>set cur. w \<noteq> [] \<and> (\<forall>c\<in>set w. \<not> is_space c) \<Longrightarrow>
   join_words cur \<noteq> [] \<and> \<not> is_space (hd (join_words cur)) \<and> \<not> is_space (last (join_words cur))"
proof (induction cur rule: join_words.induct)
  case 1
  then show ?case by simp
next
  case (2 w)
  then show ?case by (cases w) auto
next
  case (3 w v ws)
  then have IH: "join_words (v # ws) \<noteq> [] \<and> \<not> is_space (last (join_words (v # ws)))" by simp
  from 3(3) have w: "w \<noteq> []" "\<not> is_space (hd w)" by (cases w; simp)+
  show ?case using IH w by (simp add: hd_append)
qed

lemma space_is_space: "is_space CHR '' ''"
  by (simp add: is_space_def)

lemma candidate_join:
  assumes cur: "\<forall>v\<in>set cur. v \<noteq> [] \<and> (\<forall>c\<in>set v. \<not> is_space c)"
      and w: "w \<noteq> [] \<and> (\<forall>c\<in>set w. \<not> is_space c)"
  shows "strip (join_words cur @ '' '' @ w) = join_words (cur @ [w])"
proof (cases "cur = []")
  case True
  have "dropWhile is_space ('' '' @ w) = w"
    using w space_is_space by (cases w) simp_all
  moreover have "dropWhile is_space (rev w) = rev w"
    using w by (intro dropWhile_head) (simp_all add: hd_rev)
  moreover have "rev ('' '' @ w) = rev w @ '' ''" by simp
  ultimately show ?thesis using True w space_is_space
    by (simp add: strip_def dropWhile_append3 del: rev_append)
next
  case False
  have all: "\<forall>v\<in>set (cur @ [w]). v \<noteq> [] \<and> (\<forall>c\<in>set v. \<not> is_space c)" using cur w by simp
  have "cur @ [w] \<noteq> []" by simp
  from join_words_ends[OF this all] have "strip (join_words (cur @ [w])) = join_words (cur @ [w])"
    by (intro strip_id) simp_all
  then show ?thesis using False by (simp add: join_words_snoc)
qed


lemma join_words_Nil_iff:
  "\<forall>v\<in>set cur. v \<noteq> [] \<Longrightarrow> join_words cur = [] \<longleftrightarrow> cur = []"
  by (induction cur rule: join_words.induct) simp_all

lemma pack_words_refines:
  assumes "\<forall>v\<in>set cur. v \<noteq> [] \<and> (\<forall>c\<in>set v. \<not> is_space c)"
      and "\<forall>v\<in>set ws. v \<noteq> [] \<and> (\<forall>c\<in>set v. \<not> is_space c)"
  shows "(case pack_words m b ws lines (join_words cur) of
            (ls, c) \<Rightarrow> if c \<noteq> [] then ls @ [c] else ls) =
         lines @ map join_words (pack_groups m b cur ws)"
  using assms
proof (induction ws arbitrary: lines cur)
  case Nil
  then show ?case by (simp add: join_words_Nil_iff)
next
  case (Cons w ws)
  have w: "w \<noteq> [] \<and> (\<forall>c\<in>set w. \<not> is_space c)" and ws: "\<forall>v\<in>set ws. v \<noteq> [] \<and> (\<forall>c\<in>set v. \<not> is_space c)"
    using Cons.prems(2) by simp_all
  have cand: "strip (join_words cur @ '' '' @ w) = join_words (cur @ [w])"
    using candidate_join[OF Cons.prems(1) w] .
  have curw: "\<forall>v\<in>set (cur @ [w]). v \<noteq> [] \<and> (\<forall>c\<in>set v. \<not> is_space c)"
    using Cons.prems(1) w by simp
  have onew: "\<forall>v\<in>set [w]. v \<noteq> [] \<and> (\<forall>c\<in>set v. \<not> is_space c)" using w by simp
  have nil: "join_words cur = [] \<longleftrightarrow> cur = []"
    using Cons.prems(1) by (intro join_words_Nil_iff) simp
  show ?case
  proof (cases "right (m (join_words (cur @ [w]))) \<le> b")
    case True
    have "pack_words m b (w # ws) lines (join_words cur) = pack_words m b ws lines (join_words (cur @ [w]))"
      using True cand by (simp add: Let_def)
    then show ?thesis using Cons.IH[OF curw ws, of lines] True by simp
  next
    case False
    have step: "pack_words m b (w # ws) lines (join_words cur) =
          pack_words m b ws (if cur \<noteq> [] then lines @ [join_words cur] else lines) (join_words [w])"
      using False cand nil by (simp add: Let_def)
    show ?thesis
    proof (cases "cur = []")
      case True
      then show ?thesis using step Cons.IH[OF onew ws, of lines] by simp
    next
      case nonempty: False
      then show ?thesis using step False Cons.IH[OF onew ws, of "lines @ [join_words cur]"] by simp
    qed
  qed
qed

lemma caption_lines_greedy:
  "caption_lines m width text = map join_words (pack_groups m (width - 80) [] (str_split text))"
proof -
  have "(case pack_words m (width - 80) (str_split text) [] (join_words []) of
            (ls, c) \<Rightarrow> if c \<noteq> [] then ls @ [c] else ls) =
         [] @ map join_words (pack_groups m (width - 80) [] (str_split text))"
    by (rule pack_words_refines) (simp_all add: str_split_words)
  then show ?thesis by (simp add: caption_lines_def Let_def split: prod.splits)
qed

lemma pack_groups_concat: "concat (pack_groups m b cur ws) = cur @ ws"
  by (induction ws arbitrary: cur) simp_all

lemma pack_groups_nonempty: "[] \<notin> set (pack_groups m b cur ws)"
  by (induction ws arbitrary: cur) auto

lemma pack_groups_first:
  "cur \<noteq> [] \<Longrightarrow> pack_groups m b cur ws \<noteq> [] \<and> hd (hd (pack_groups m b cur ws)) = hd cur"
  by (induction ws arbitrary: cur) auto

lemma pack_groups_breaks:
  "Suc i < length (pack_groups m b cur ws) \<Longrightarrow>
   b < right (m (join_words (pack_groups m b cur ws ! i @ [hd (pack_groups m b cur ws ! Suc i)])))"
proof (induction ws arbitrary: cur i)
  case Nil
  then show ?case by (simp split: if_splits)
next
  case (Cons w ws)
  show ?case
  proof (cases "cur = [] \<or> right (m (join_words (cur @ [w]))) \<le> b")
    case True
    then show ?thesis using Cons.IH[of i "cur @ [w]"] Cons.prems by simp
  next
    case False
    then have eq: "pack_groups m b cur (w # ws) = cur # pack_groups m b [w] ws" by simp
    show ?thesis
    proof (cases i)
      case 0
      have "hd (hd (pack_groups m b [w] ws)) = w" "pack_groups m b [w] ws \<noteq> []"
        using pack_groups_first[of "[w]" m b ws] by simp_all
      then have "hd (pack_groups m b [w] ws ! 0) = w" by (simp add: hd_conv_nth)
      then show ?thesis using False 0 eq by simp
    next
      case (Suc j)
      then show ?thesis using Cons.IH[of j "[w]"] Cons.prems eq by simp
    qed
  qed
qed

lemma pack_groups_fit:
  "cur = [] \<or> length cur = 1 \<or> right (m (join_words cur)) \<le> b \<Longrightarrow>
   g \<in> set (pack_groups m b cur ws) \<Longrightarrow> length g = 1 \<or> right (m (join_words g)) \<le> b"
proof (induction ws arbitrary: cur)
  case Nil
  then show ?case by (auto split: if_splits)
next
  case (Cons w ws)
  show ?case
  proof (cases "cur = [] \<or> right (m (join_words (cur @ [w]))) \<le> b")
    case True
    then have "g \<in> set (pack_groups m b (cur @ [w]) ws)" using Cons.prems(2) by simp
    moreover have "cur @ [w] = [] \<or> length (cur @ [w]) = 1 \<or> right (m (join_words (cur @ [w]))) \<le> b"
      using True by auto
    ultimately show ?thesis by (rule Cons.IH[rotated])
  next
    case False
    then have "g = cur \<or> g \<in> set (pack_groups m b [w] ws)" using Cons.prems(2) by simp
    then show ?thesis
    proof
      assume "g = cur"
      then show ?thesis using Cons.prems(1) False by auto
    next
      assume "g \<in> set (pack_groups m b [w] ws)"
      then show ?thesis using Cons.IH[of "[w]"] by simp
    qed
  qed
qed


text \<open>
  C8 as stated fails, twice. A word wider than the bound is put on a line of its own, and
  that line is wider than the bound. And the loop tests the right edge of the text box
  (\<^verbatim>\<open>bbox[2]\<close>) while the line is rendered \<^verbatim>\<open>bbox[2] - bbox[0]\<close> wide: with a box that
  starts left of the origin, as a stroke makes it, a line that passes the test is
  wider than the bound.
\<close>

theorem C8_counterexample:
  "caption_lines mono_metric 100 ''Supercalifragilistic'' = [''Supercalifragilistic''] \<and>
   100 - 80 < right (mono_metric ''Supercalifragilistic'') - left (mono_metric ''Supercalifragilistic'') \<and>
   caption_lines stroke_metric 132 ''Hello'' = [''Hello''] \<and>
   right (stroke_metric ''Hello'') \<le> 132 - 80 \<and>
   132 - 80 < right (stroke_metric ''Hello'') - left (stroke_metric ''Hello'')"
  by (simp add: caption_lines_def str_split_def strip_def is_space_def mono_metric_def
        stroke_metric_def Let_def)

text \<open>
  C8, amended. The caption lines are the greedy packing of the words of the dialogue:
  each line is a non-empty run of consecutive words joined by single spaces, the lines
  together are all the words in order, and a new line is started before a word exactly
  when the line being filled is not empty and adding the word would put its measured
  right edge past canvas width minus 80 (so wherever a line ends, the next word would
  not have fitted on it). The measured right edge of every line is within that bound,
  unless the line is a single word that alone is past it; and the rendered width of
  such a line, right edge minus left edge, is within the bound whenever the left edge
  of its box is not negative.
\<close>

theorem C8_greedy_layout:
  "caption_lines m width text = map join_words (pack_groups m (width - 80) [] (str_split text)) \<and>
   concat (pack_groups m (width - 80) [] (str_split text)) = str_split text \<and>
   [] \<notin> set (pack_groups m (width - 80) [] (str_split text)) \<and>
   (Suc i < length (pack_groups m (width - 80) [] (str_split text)) \<longrightarrow>
      width - 80 < right (m (join_words (pack_groups m (width - 80) [] (str_split text) ! i
                                          @ [hd (pack_groups m (width - 80) [] (str_split text) ! Suc i)])))) \<and>
   (g \<in> set (pack_groups m (width - 80) [] (str_split text)) \<longrightarrow>
      right (m (join_words g)) \<le> width - 80 \<or> (length g = 1 \<and> width - 80 < right (m (join_words g)))) \<and>
   (g \<in> set (pack_groups m (width - 80) [] (str_split text)) \<and> 0 \<le> left (m (join_words g)) \<longrightarrow>
      right (m (join_words g)) - left (m (join_words g)) \<le> width - 80
      \<or> (length g = 1 \<and> width - 80 < right (m (join_words g))))"
proof -
  let ?gs = "pack_groups m (width - 80) [] (str_split text)"
  have fit: "length g = 1 \<or> right (m (join_words g)) \<le> width - 80" if "g \<in> set ?gs"
    using pack_groups_fit[of "[]" m "width - 80" g "str_split text"] that by simp
  have a: "g \<in> set ?gs \<longrightarrow>
      right (m (join_words g)) \<le> width - 80 \<or> (length g = 1 \<and> width - 80 < right (m (join_words g)))"
    using fit by auto
  have b: "g \<in> set ?gs \<and> 0 \<le> left (m (join_words g)) \<longrightarrow>
      right (m (join_words g)) - left (m (join_words g)) \<le> width - 80
      \<or> (length g = 1 \<and> width - 80 < right (m (join_words g)))"
    using fit by auto
  show ?thesis
    using caption_lines_greedy[of m width "text"] pack_groups_nonempty[of m "width - 80" "[]" "str_split text"]
      pack_groups_breaks[of i m "width - 80" "[]" "str_split text"] a b
    by (simp add: pack_groups_concat)
qed

theorem C8_witness:
  "caption_lines mono_metric 130 ''Hello world'' = [''Hello'', ''world''] \<and>
   130 - 80 < right (mono_metric ''Hello world'') \<and>
   right (mono_metric ''Hello'') - left (mono_metric ''Hello'') \<le> 130 - 80"
proof -
  have ev: "pack_groups mono_metric 50 [] (str_split ''Hello world'') = [[''Hello''], [''world'']]"
    by (simp add: str_split_def is_space_def mono_metric_def)
  have l: "0 \<le> left (mono_metric (join_words [''Hello'']))"
          "\<not> 130 - 80 < right (mono_metric (join_words [''Hello'']))"
    by (simp_all add: mono_metric_def)
  show ?thesis
    using C8_greedy_layout[of mono_metric 130 "''Hello world''" 0 "[''Hello'']"] l
    by (simp add: ev mono_metric_def)
qed

subsection \<open>Scene Track Builder\<close>

lemma variants_loop_subclips:
  "snd (variants_loop c description sd save_dir idx ks fs subclips) =
     subclips @ map (\<lambda>k. (variant_image c description k, sd)) ks"
  by (induction ks arbitrary: fs subclips) (simp_all add: Let_def)

lemma clamp_count:
  fixes n :: int
  shows "2 \<le> nat (max 2 (min 4 (if n = 0 then 2 else n)))"
    and "nat (max 2 (min 4 (if n = 0 then 2 else n))) \<le> 4"
    and "2 \<le> n \<Longrightarrow> nat (max 2 (min 4 (if n = 0 then 2 else n))) = nat (min 4 n)"
  by (auto simp: min_def max_def)

lemma num_images_for_range: "2 \<le> num_images_for d \<and> num_images_for d \<le> 4"
  unfolding num_images_for_def Let_def using clamp_count(1,2) by blast

lemma num_images_for_long:
  assumes "4 \<le> d"
  shows "num_images_for d = nat (min 4 \<lfloor>d / 2\<rfloor>)"
proof -
  from assms have "2 \<le> d / 2" by simp
  then have "2 \<le> \<lfloor>d / 2\<rfloor>" by (simp only: le_floor_iff of_int_numeral)
  then show ?thesis unfolding num_images_for_def Let_def by (rule clamp_count(3))
qed

lemma generate_visual_look:
  "look (snd (generate_visual c fs description d sp)) =
     Still (if image_gen c (single_prompt description) then Generated (single_prompt description)
            else Fallback description)"
  by (simp add: generate_visual_def ImageClip_def create_fallback_image_def Let_def)

lemma generate_visual_sequence_look:
  "visual_of (generate_visual_sequence c fs description d sd idx) =
     (if concat_ok c then
        Some (Sequence (map (\<lambda>k. (variant_image c description k, d / of_nat (num_images_for d)))
                          [0..<num_images_for d]))
      else None)"
proof -
  obtain fs' subs where v: "variants_loop c description (d / of_nat (num_images_for d)) sd idx [0..<num_images_for d] fs [] = (fs', subs)"
    by (cases "variants_loop c description (d / of_nat (num_images_for d)) sd idx [0..<num_images_for d] fs []") auto
  have "subs = map (\<lambda>k. (variant_image c description k, d / of_nat (num_images_for d))) [0..<num_images_for d]"
    using variants_loop_subclips[of c description "d / of_nat (num_images_for d)" sd idx "[0..<num_images_for d]" fs "[]"] v
    by simp
  then show ?thesis
    using v by (simp add: generate_visual_sequence_def visual_of_def Let_def)
qed


lemma base_visual_pre_supplied:
  "image_path sc = Some p \<Longrightarrow> p \<noteq> [] \<Longrightarrow> fs p = Some Picture \<Longrightarrow>
   visual_of (base_visual c fs sc desc d idx) = Some (Still (Loaded p))"
  by (simp add: base_visual_def usable_path_def path_exists_def Image_open_def visual_of_def ImageClip_def)

lemma base_visual_long:
  "\<not> usable_path fs (image_path sc) \<Longrightarrow> 4 \<le> d \<Longrightarrow> concat_ok c \<Longrightarrow>
   visual_of (base_visual c fs sc desc d idx) =
     Some (Sequence (map (\<lambda>k. (variant_image c desc k, d / of_nat (num_images_for d)))
                       [0..<num_images_for d]))"
  using generate_visual_sequence_look[of c fs desc d "Some DUMMY_IMAGE_DIR" idx]
  by (auto simp: base_visual_def visual_of_def split: prod.splits sum.splits)

lemma base_visual_single:
  "\<not> usable_path fs (image_path sc) \<Longrightarrow> d < 4 \<or> \<not> concat_ok c \<Longrightarrow>
   visual_of (base_visual c fs sc desc d idx) =
     Some (Still (if image_gen c (single_prompt desc) then Generated (single_prompt desc)
                  else Fallback desc))"
proof -
  assume nu: "\<not> usable_path fs (image_path sc)" and or: "d < 4 \<or> \<not> concat_ok c"
  have gv: "\<And>fs0 sp. look (snd (generate_visual c fs0 desc d sp)) =
     Still (if image_gen c (single_prompt desc) then Generated (single_prompt desc) else Fallback desc)"
    by (rule generate_visual_look)
  show ?thesis
  proof (cases "d < 4")
    case True
    then show ?thesis using nu gv[of fs "Some (scene_png idx)"]
      by (auto simp: base_visual_def visual_of_def split: prod.splits)
  next
    case False
    with or have nc: "\<not> concat_ok c" by simp
    obtain fs1 r where s: "generate_visual_sequence c fs desc d (Some DUMMY_IMAGE_DIR) idx = (fs1, r)"
      by (cases "generate_visual_sequence c fs desc d (Some DUMMY_IMAGE_DIR) idx") auto
    have "r = Inl ConcatError" using s nc by (auto simp: generate_visual_sequence_def Let_def split: prod.splits)
    then show ?thesis using nu False s gv[of fs1 "Some (scene_png idx)"]
      by (auto simp: base_visual_def visual_of_def split: prod.splits)
  qed
qed

lemma create_scene_clip_result:
  "create_scene_clip c fs sc ap idx = (fs', Inr cl) \<Longrightarrow>
   cdur cl = resolve_duration fs sc ap \<and>
   visual_of (base_visual c fs sc (visual_description_of c sc) (resolve_duration fs sc ap) idx) = Some (look cl)"
  by (auto simp: create_scene_clip_def visual_of_def Let_def split: prod.splits sum.splits if_splits option.splits)


text \<open>
  C5 as stated fails: for a scene of duration 6 without a pre-supplied image, a single
  image could be synthesized (step 2 of the claim would succeed), yet the builder returns
  a sequence of three variants.
\<close>

theorem C5_counterexample:
  "image_gen stub (single_prompt ''v'') \<and>
   visual_of (create_scene_clip stub no_files (blank_scene\<lparr>duration := Some 6, visual := Some ''v''\<rparr>) None 0) =
     Some (Sequence [(Generated (variant_prompt ''v'' 0), 2), (Generated (variant_prompt ''v'' 1), 2),
                     (Generated (variant_prompt ''v'' 2), 2)])"
  by code_simp

text \<open>
  C5, amended. When the scene's image path is set and names an existing file that opens
  as a picture, the visual source is that pre-supplied still image. When no image path
  is set, or it is empty or names no existing file: if the resolved duration is at least
  4, the source is a sequence of \<open>min 4 \<lfloor>d / 2\<rfloor>\<close> (so 2 to 4) variant images, each lasting
  the duration divided by their number and each replaced by the placeholder when its
  synthesis fails; if the duration is below 4, or the sequence cannot be concatenated,
  it is one synthesized image, or the placeholder when its synthesis fails. The clip
  that \<open>create_scene_clip\<close> returns shows that source for the resolved duration.
\<close>

theorem C5_visual_chain:
  "(image_path sc = Some p \<and> p \<noteq> [] \<and> fs p = Some Picture \<longrightarrow>
      visual_of (base_visual c fs sc desc d idx) = Some (Still (Loaded p))) \<and>
   (\<not> usable_path fs (image_path sc) \<and> 4 \<le> d \<and> concat_ok c \<longrightarrow>
      visual_of (base_visual c fs sc desc d idx) =
        Some (Sequence (map (\<lambda>k. (variant_image c desc k, d / of_nat (num_images_for d)))
                          [0..<num_images_for d])) \<and>
      num_images_for d = nat (min 4 \<lfloor>d / 2\<rfloor>) \<and> 2 \<le> num_images_for d \<and> num_images_for d \<le> 4) \<and>
   (\<not> usable_path fs (image_path sc) \<and> (d < 4 \<or> \<not> concat_ok c) \<longrightarrow>
      visual_of (base_visual c fs sc desc d idx) =
        Some (Still (if image_gen c (single_prompt desc) then Generated (single_prompt desc)
                     else Fallback desc))) \<and>
   (create_scene_clip c fs sc ap idx = (fs', Inr cl) \<longrightarrow>
      cdur cl = resolve_duration fs sc ap \<and>
      visual_of (base_visual c fs sc (visual_description_of c sc) (resolve_duration fs sc ap) idx) =
        Some (look cl))"
  using base_visual_pre_supplied[of sc p fs c desc d idx]
        base_visual_long[of fs sc d c desc idx]
        base_visual_single[of fs sc d c desc idx]
        create_scene_clip_result[of c fs sc ap idx fs' cl]
        num_images_for_long[of d] num_images_for_range[of d]
  by blast

theorem C5_witness:
  "visual_of (base_visual stub (one_picture ''pic.png'') (blank_scene\<lparr>image_path := Some ''pic.png''\<rparr>) ''v'' 9 0) =
     Some (Still (Loaded ''pic.png'')) \<and>
   visual_of (base_visual stub no_files blank_scene ''v'' 9 0) =
     Some (Sequence [(Generated (variant_prompt ''v'' 0), 9 / 4), (Generated (variant_prompt ''v'' 1), 9 / 4),
                     (Generated (variant_prompt ''v'' 2), 9 / 4), (Generated (variant_prompt ''v'' 3), 9 / 4)]) \<and>
   visual_of (base_visual stub no_files blank_scene ''v'' 3 0) =
     Some (Still (Generated (single_prompt ''v'')))"
proof -
  have a: "visual_of (base_visual stub (one_picture ''pic.png'') (blank_scene\<lparr>image_path := Some ''pic.png''\<rparr>) ''v'' 9 0) =
     Some (Still (Loaded ''pic.png''))"
    using C5_visual_chain[where sc = "blank_scene\<lparr>image_path := Some ''pic.png''\<rparr>" and p = "''pic.png''"
        and fs = "one_picture ''pic.png''" and c = stub and desc = "''v''" and d = 9 and idx = 0]
    by (simp add: blank_scene_def one_picture_def)
  have nu: "\<not> usable_path no_files (image_path blank_scene)"
    by (simp add: usable_path_def blank_scene_def)
  have ok: "concat_ok stub" "image_gen stub (single_prompt ''v'')" by (simp_all add: stub_def)
  have b: "visual_of (base_visual stub no_files blank_scene ''v'' 9 0) =
        Some (Sequence (map (\<lambda>k. (variant_image stub ''v'' k, 9 / of_nat (num_images_for 9)))
                          [0..<num_images_for 9]))"
    using C5_visual_chain[where sc = blank_scene and fs = no_files and c = stub and desc = "''v''" and d = 9 and idx = 0]
      nu ok by simp
  have ev: "map (\<lambda>k. (variant_image stub ''v'' k, (9::rat) / of_nat (num_images_for 9))) [0..<num_images_for 9] =
      [(Generated (variant_prompt ''v'' 0), 9 / 4), (Generated (variant_prompt ''v'' 1), 9 / 4),
       (Generated (variant_prompt ''v'' 2), 9 / 4), (Generated (variant_prompt ''v'' 3), 9 / 4)]"
    by code_simp
  have c: "visual_of (base_visual stub no_files blank_scene ''v'' 3 0) =
     Some (Still (Generated (single_prompt ''v'')))"
    using C5_visual_chain[where sc = blank_scene and fs = no_files and c = stub and desc = "''v''" and d = 3 and idx = 0]
      nu ok by simp
  show ?thesis using a b c by (simp only: ev simp_thms)
qed

subsection \<open>Transition Stitcher\<close>

lemma crossfade_loop_durations:
  "map cdur (crossfade_loop c rest final_clips) = map cdur final_clips @ map cdur rest"
  by (induction rest arbitrary: final_clips) (simp_all add: Let_def)

lemma crossfade_loop_length:
  "length (crossfade_loop c rest final_clips) = length final_clips + length rest"
  by (induction rest arbitrary: final_clips) (simp_all add: Let_def)

lemma place_clips_clips: "map snd (place_clips t xs) = xs"
  by (induction xs arbitrary: t) simp_all

lemma place_clips_starts:
  "map fst (place_clips t xs) = map (\<lambda>i. t + sum_list (map cdur (take i xs))) [0..<length xs]"
proof (induction xs arbitrary: t)
  case Nil
  then show ?case by simp
next
  case (Cons x xs)
  have "[0..<length (x # xs)] = 0 # map Suc [0..<length xs]"
    by (simp add: upt_conv_Cons map_Suc_upt del: upt_Suc)
  then show ?case
    by (simp add: Cons.IH o_def add.assoc del: upt_Suc)
qed

lemma concatenate_times:
  "tdur (concatenate_videoclips xs) = sum_list (map cdur xs) \<and>
   map fst (segments (concatenate_videoclips xs)) = map (\<lambda>i. sum_list (map cdur (take i xs))) [0..<length xs] \<and>
   map snd (segments (concatenate_videoclips xs)) = xs"
  by (simp add: concatenate_videoclips_def place_clips_clips place_clips_starts)

lemma take_map_cdur:
  "map cdur ys = map cdur xs \<Longrightarrow> sum_list (map cdur (take i ys)) = sum_list (map cdur (take i xs))"
  by (metis take_map)

lemma stitch_times:
  assumes "clips \<noteq> []"
  shows "\<exists>v. stitch c clips = Some v \<and> tdur v = sum_list (map cdur clips) \<and>
          map fst (segments v) = map (\<lambda>i. sum_list (map cdur (take i clips))) [0..<length clips] \<and>
          map (cdur \<circ> snd) (segments v) = map cdur clips"
proof -
  from assms obtain first rest where cl: "clips = first # rest" by (cases clips) auto
  show ?thesis
  proof (cases rest)
    case Nil
    then show ?thesis using cl by (simp add: stitch_def)
  next
    case (Cons a as)
    let ?fc = "crossfade_loop c rest [first]"
    have d: "map cdur ?fc = map cdur clips" by (simp add: crossfade_loop_durations cl)
    have l: "length ?fc = length clips" by (simp add: crossfade_loop_length cl)
    have s: "stitch c clips = Some (concatenate_videoclips ?fc)"
      using cl Cons by (simp add: stitch_def)
    have t1: "tdur (concatenate_videoclips ?fc) = sum_list (map cdur clips)"
      using concatenate_times[of ?fc] d by simp
    have t2: "map fst (segments (concatenate_videoclips ?fc)) =
              map (\<lambda>i. sum_list (map cdur (take i clips))) [0..<length clips]"
      using concatenate_times[of ?fc] l take_map_cdur[OF d] by simp
    have "map (cdur \<circ> snd) (segments (concatenate_videoclips ?fc)) = map cdur (map snd (segments (concatenate_videoclips ?fc)))"
      by simp
    also have "\<dots> = map cdur clips" using concatenate_times[of ?fc] d by simp
    finally have t3: "map (cdur \<circ> snd) (segments (concatenate_videoclips ?fc)) = map cdur clips" .
    show ?thesis using s t1 t2 t3 by blast
  qed
qed

text \<open>
  C4. For every non-empty list of scene clips, with or without crossfades applied, the
  stitched primary track keeps every clip's duration, starts clip \<open>i\<close> at the sum of the
  durations of the clips before it, and declares as total duration the exact sum of the
  clip durations: nothing is subtracted for the crossfade window. The duration of a
  clip that \<open>create_scene_clip\<close> returns is the scene's resolved duration.
\<close>

theorem C4_stitch_keeps_times:
  "(clips \<noteq> [] \<longrightarrow>
      map_option tdur (stitch c clips) = Some (sum_list (map cdur clips)) \<and>
      map_option (\<lambda>v. map fst (segments v)) (stitch c clips) =
        Some (map (\<lambda>i. sum_list (map cdur (take i clips))) [0..<length clips]) \<and>
      map_option (\<lambda>v. map (cdur \<circ> snd) (segments v)) (stitch c clips) = Some (map cdur clips)) \<and>
   (create_scene_clip c fs sc ap idx = (fs', Inr cl) \<longrightarrow> cdur cl = resolve_duration fs sc ap)"
proof -
  have "cdur cl = resolve_duration fs sc ap" if "create_scene_clip c fs sc ap idx = (fs', Inr cl)"
    using that
    by (auto simp: create_scene_clip_def Let_def split: prod.splits sum.splits if_splits option.splits)
  moreover have "map_option tdur (stitch c clips) = Some (sum_list (map cdur clips)) \<and>
      map_option (\<lambda>v. map fst (segments v)) (stitch c clips) =
        Some (map (\<lambda>i. sum_list (map cdur (take i clips))) [0..<length clips]) \<and>
      map_option (\<lambda>v. map (cdur \<circ> snd) (segments v)) (stitch c clips) = Some (map cdur clips)"
    if "clips \<noteq> []"
    using stitch_times[OF that, of c] by auto
  ultimately show ?thesis by blast
qed

theorem C4_witness:
  "map_option tdur (stitch stub two_clips) = Some 5 \<and>
   map_option (\<lambda>v. map fst (segments v)) (stitch stub two_clips) = Some [0, 3] \<and>
   map_option (\<lambda>v. map (cdur \<circ> snd) (segments v)) (stitch stub two_clips) = Some [3, 2]"
proof -
  have ne: "two_clips \<noteq> []" by (simp add: two_clips_def)
  have ev: "sum_list (map cdur two_clips) = 5"
       "map (\<lambda>i. sum_list (map cdur (take i two_clips))) [0..<length two_clips] = [0, 3]"
       "map cdur two_clips = [3, 2]"
    by (simp_all add: two_clips_def ImageClip_def upt_conv_Cons)
  have "map_option tdur (stitch stub two_clips) = Some (sum_list (map cdur two_clips)) \<and>
      map_option (\<lambda>v. map fst (segments v)) (stitch stub two_clips) =
        Some (map (\<lambda>i. sum_list (map cdur (take i two_clips))) [0..<length two_clips]) \<and>
      map_option (\<lambda>v. map (cdur \<circ> snd) (segments v)) (stitch stub two_clips) = Some (map cdur two_clips)"
    using C4_stitch_keeps_times[where clips = two_clips and c = stub] ne by blast
  then show ?thesis by (simp add: ev)
qed

subsection \<open>Timeline Assembler\<close>

lemma stitch_None_iff: "stitch c clips = None \<longleftrightarrow> clips = []"
  by (cases clips) (simp_all add: stitch_def)

text \<open>
  \<open>generate\<close> returns \<open>None\<close> exactly when the script has no scenes or the clip loop
  produced no clip; a failed encode is an exception, not a return.
\<close>

lemma generate_returns_None_iff:
  "snd (generate c m fs rnd scr td) = Inr None \<longleftrightarrow>
     (scr = None \<or> scr = Some []) \<or>
     (\<exists>scs. scr = Some scs \<and>
        snd (clips_loop c (snd (voiceover_loop c scs 0 fs [])) scs 0 (fst (voiceover_loop c scs 0 fs [])) []) = [])"
  by (auto simp: generate_def Let_def stitch_None_iff split: option.splits prod.splits)

text \<open>
  C3. A scene whose clip cannot be built has to leave the timeline, the rest being built
  as usual. In the code the clip loop skips it, but \<^verbatim>\<open>_add_captions_timed\<close> is handed all
  the scenes: here the first of two scenes names a pre-supplied image that is not a
  picture, so its clip raises and the primary track holds the second scene alone, from
  0 to 2; yet the caption of the dropped scene is still overlaid from 0 to 2, the
  caption of the second scene is pushed to 2, after the end of its clip, and the
  rendered timeline lasts 4.
\<close>

theorem C3_dropped_scene_keeps_caption:
  "primary_times (generate stub mono_metric bad_png ''00ff00ff'' corrupt_image_script 10) = [(0, 2)] \<and>
   caption_times (generate stub mono_metric bad_png ''00ff00ff'' corrupt_image_script 10) =
     [(0, 2, [''A'']), (2, 2, [''B''])] \<and>
   total_duration (generate stub mono_metric bad_png ''00ff00ff'' corrupt_image_script 10) = Some 4"
  by code_simp

text \<open>From the same files, the random output name and the target duration change nothing.\<close>

lemma generate_ignores_output_name:
  "total_duration (generate c m fs rnd1 scr td1) = total_duration (generate c m fs rnd2 scr td2) \<and>
   primary_times (generate c m fs rnd1 scr td1) = primary_times (generate c m fs rnd2 scr td2) \<and>
   caption_times (generate c m fs rnd1 scr td1) = caption_times (generate c m fs rnd2 scr td2)"
  by (auto simp: generate_def total_duration_def primary_times_def caption_times_def Let_def
        split: option.splits prod.splits)

text \<open>
  The second run against the first. Both perform the same writes, so file systems that
  agree on a set of paths keep agreeing on it, and on every path written; a run reads
  only the paths that scenes name and the speech files it has just written.
\<close>

lemma agree_update: "agree A s s' \<Longrightarrow> agree A (s(p \<mapsto> x)) (s'(p \<mapsto> x))"
  by (simp add: agree_def)

lemma agree_update_insert: "agree A s s' \<Longrightarrow> agree (insert p A) (s(p \<mapsto> x)) (s'(p \<mapsto> x))"
  by (simp add: agree_def)

lemma agree_write_file: "agree A s s' \<Longrightarrow> agree A (write_file c s p x) (write_file c s' p x)"
  by (simp add: write_file_def agree_update)

lemma agree_subset: "agree A s s' \<Longrightarrow> B \<subseteq> A \<Longrightarrow> agree B s s'"
  by (auto simp: agree_def)

lemma agree_usable_path:
  "agree A s s' \<Longrightarrow> \<forall>p. ap = Some p \<longrightarrow> p \<in> A \<Longrightarrow> usable_path s ap = usable_path s' ap"
  by (auto simp: agree_def usable_path_def path_exists_def split: option.splits)

lemma agree_AudioFileClip: "agree A s s' \<Longrightarrow> p \<in> A \<Longrightarrow> AudioFileClip s p = AudioFileClip s' p"
  by (simp add: agree_def AudioFileClip_def)

lemma agree_Image_open: "agree A s s' \<Longrightarrow> p \<in> A \<Longrightarrow> Image_open s p = Image_open s' p"
  by (simp add: agree_def Image_open_def)

lemma agree_resolve_duration:
  assumes "agree A s s'" "\<forall>p. ap = Some p \<longrightarrow> p \<in> A"
  shows "resolve_duration s sc ap = resolve_duration s' sc ap"
proof (cases ap)
  case None
  then show ?thesis by (simp add: resolve_duration_def usable_path_def)
next
  case (Some p)
  with assms have pA: "p \<in> A" by simp
  have e1: "AudioFileClip s p = AudioFileClip s' p"
    using assms(1) pA by (rule agree_AudioFileClip)
  have e2: "usable_path s (Some p) = usable_path s' (Some p)"
    using assms(1) pA by (intro agree_usable_path) simp_all
  show ?thesis by (simp add: resolve_duration_def Some e1 e2 Let_def)
qed

lemma agree_generate_visual:
  "snd (generate_visual c s d dur sp) = snd (generate_visual c s' d dur sp) \<and>
   (agree A s s' \<longrightarrow> agree A (fst (generate_visual c s d dur sp)) (fst (generate_visual c s' d dur sp)))"
  by (auto simp: generate_visual_def Let_def agree_write_file split: option.splits)

lemma agree_variants_loop:
  "agree A s s' \<Longrightarrow>
   agree A (fst (variants_loop c d sd dir idx ks s subs)) (fst (variants_loop c d sd dir idx ks s' subs)) \<and>
   snd (variants_loop c d sd dir idx ks s subs) = snd (variants_loop c d sd dir idx ks s' subs)"
proof (induction ks arbitrary: s s' subs)
  case Nil
  then show ?case by simp
next
  case (Cons k ks)
  show ?case
  proof (cases dir)
    case None
    then show ?thesis using Cons.IH[OF Cons.prems] by (simp add: Let_def)
  next
    case (Some dd)
    show ?thesis
    proof (cases "dd = []")
      case True
      then show ?thesis using Some Cons.IH[OF Cons.prems] by (simp add: Let_def)
    next
      case False
      let ?p = "os_path_join dd (''scene_'' @ str_of_nat (idx + 1) @ ''_var'' @ str_of_nat (k + 1) @ ''.png'')"
      have "agree A (write_file c s ?p Picture) (write_file c s' ?p Picture)"
        using Cons.prems by (rule agree_write_file)
      from Cons.IH[OF this] show ?thesis using Some False by (simp add: Let_def)
    qed
  qed
qed

lemma agree_generate_visual_sequence:
  assumes "agree A s s'"
  shows "agree A (fst (generate_visual_sequence c s d dur dir idx)) (fst (generate_visual_sequence c s' d dur dir idx)) \<and>
         snd (generate_visual_sequence c s d dur dir idx) = snd (generate_visual_sequence c s' d dur dir idx)"
  using agree_variants_loop[OF assms, of c d "dur / of_nat (num_images_for dur)" dir idx "[0..<num_images_for dur]" "[]"]
  by (simp add: generate_visual_sequence_def Let_def split_beta)


lemma agree_base_visual:
  assumes ag: "agree A s s'" and img: "\<forall>p. image_path sc = Some p \<longrightarrow> p \<in> A"
  shows "agree A (fst (base_visual c s sc d dur idx)) (fst (base_visual c s' sc d dur idx)) \<and>
         snd (base_visual c s sc d dur idx) = snd (base_visual c s' sc d dur idx)"
proof -
  have u: "usable_path s (image_path sc) = usable_path s' (image_path sc)"
    using ag img by (rule agree_usable_path)
  show ?thesis
  proof (cases "usable_path s' (image_path sc)")
    case True
    then obtain p where p: "image_path sc = Some p" by (auto simp: usable_path_def split: option.splits)
    with img have "p \<in> A" by simp
    then have "Image_open s p = Image_open s' p" using ag agree_Image_open by blast
    then show ?thesis using True u p ag by (simp add: base_visual_def split: sum.splits)
  next
    case False
    note gv = agree_generate_visual[of c _ d dur "Some (scene_png idx)" _ A]
    show ?thesis
    proof (cases "dur \<ge> 4")
      case long: True
      let ?r = "generate_visual_sequence c s d dur (Some DUMMY_IMAGE_DIR) idx"
      let ?r' = "generate_visual_sequence c s' d dur (Some DUMMY_IMAGE_DIR) idx"
      have sq: "agree A (fst ?r) (fst ?r')" "snd ?r = snd ?r'"
        using agree_generate_visual_sequence[OF ag, of c d dur "Some DUMMY_IMAGE_DIR" idx] by simp_all
      show ?thesis
      proof (cases "snd ?r'")
        case (Inr cl)
        then show ?thesis using False u long sq
          by (simp add: base_visual_def split_beta)
      next
        case (Inl e)
        then show ?thesis using False u long sq gv[of "fst ?r" "fst ?r'"]
          by (simp add: base_visual_def split_beta)
      qed
    next
      case short: False
      then show ?thesis using False u ag gv[of s s']
        by (simp add: base_visual_def split_beta)
    qed
  qed
qed

lemma agree_create_scene_clip:
  assumes ag: "agree A s s'" and img: "\<forall>p. image_path sc = Some p \<longrightarrow> p \<in> A"
      and aud: "\<forall>p. ap = Some p \<longrightarrow> p \<in> A"
  shows "agree A (fst (create_scene_clip c s sc ap idx)) (fst (create_scene_clip c s' sc ap idx)) \<and>
         snd (create_scene_clip c s sc ap idx) = snd (create_scene_clip c s' sc ap idx)"
proof -
  have rd: "resolve_duration s sc ap = resolve_duration s' sc ap"
    using ag aud by (rule agree_resolve_duration)
  let ?b = "base_visual c s sc (visual_description_of c sc) (resolve_duration s' sc ap) idx"
  let ?b' = "base_visual c s' sc (visual_description_of c sc) (resolve_duration s' sc ap) idx"
  have bv: "agree A (fst ?b) (fst ?b')" "snd ?b = snd ?b'"
    using agree_base_visual[OF ag img, of c "visual_description_of c sc" "resolve_duration s' sc ap" idx]
    by simp_all
  have u: "usable_path (fst ?b) ap = usable_path (fst ?b') ap"
    using bv(1) aud by (rule agree_usable_path)
  show ?thesis
  proof (cases ap)
    case None
    then show ?thesis using rd bv u
      by (simp add: create_scene_clip_def Let_def split_beta usable_path_def split: sum.splits)
  next
    case (Some p)
    with aud have "p \<in> A" by simp
    then have "AudioFileClip (fst ?b) p = AudioFileClip (fst ?b') p"
      using bv(1) agree_AudioFileClip by blast
    then show ?thesis using rd bv u Some
      by (simp add: create_scene_clip_def Let_def split_beta split: sum.splits)
  qed
qed


lemma agree_clips_loop:
  assumes "agree A s s'" "\<forall>sc\<in>set scs. \<forall>p. image_path sc = Some p \<longrightarrow> p \<in> A"
      and "\<forall>p. Some p \<in> set vps \<longrightarrow> p \<in> A"
  shows "agree A (fst (clips_loop c vps scs i s cl)) (fst (clips_loop c vps scs i s' cl)) \<and>
         snd (clips_loop c vps scs i s cl) = snd (clips_loop c vps scs i s' cl)"
  using assms(1,2)
proof (induction scs arbitrary: i s s' cl)
  case Nil
  then show ?case by simp
next
  case (Cons sc scs)
  have rest: "\<forall>sc\<in>set scs. \<forall>p. image_path sc = Some p \<longrightarrow> p \<in> A" using Cons.prems(2) by simp
  have img: "\<forall>p. image_path sc = Some p \<longrightarrow> p \<in> A" using Cons.prems(2) by simp
  show ?case
  proof (cases "i < length vps")
    case True
    then have aud: "\<forall>p. vps ! i = Some p \<longrightarrow> p \<in> A" using assms(3) by (metis nth_mem)
    let ?r = "create_scene_clip c s sc (vps ! i) i"
    let ?r' = "create_scene_clip c s' sc (vps ! i) i"
    have r: "agree A (fst ?r) (fst ?r')" "snd ?r = snd ?r'"
      using agree_create_scene_clip[OF Cons.prems(1) img aud, of c i] by simp_all
    show ?thesis
    proof (cases "snd ?r'")
      case (Inl e)
      then show ?thesis using True r Cons.IH[OF r(1) rest, of "i + 1" cl]
        by (simp add: split_beta)
    next
      case (Inr x)
      then show ?thesis using True r Cons.IH[OF r(1) rest, of "i + 1" "cl @ [x]"]
        by (simp add: split_beta)
    qed
  next
    case False
    then show ?thesis using Cons.IH[OF Cons.prems(1) rest, of "i + 1" cl] by simp
  qed
qed

lemma agree_voiceover_loop:
  assumes "agree A s s'" "\<forall>sc\<in>set scs. \<forall>p. audio_path sc = Some p \<longrightarrow> p \<in> A"
      and "\<forall>p. Some p \<in> set vps \<longrightarrow> p \<in> A"
  shows "\<exists>A'. A \<subseteq> A' \<and>
           agree A' (fst (voiceover_loop c scs i s vps)) (fst (voiceover_loop c scs i s' vps)) \<and>
           snd (voiceover_loop c scs i s vps) = snd (voiceover_loop c scs i s' vps) \<and>
           (\<forall>p. Some p \<in> set (snd (voiceover_loop c scs i s vps)) \<longrightarrow> p \<in> A')"
  using assms
proof (induction scs arbitrary: i s s' vps A)
  case Nil
  then show ?case by auto
next
  case (Cons sc scs)
  have rest: "\<forall>sc\<in>set scs. \<forall>p. audio_path sc = Some p \<longrightarrow> p \<in> A" using Cons.prems(2) by simp
  have aud: "\<forall>p. audio_path sc = Some p \<longrightarrow> p \<in> A" using Cons.prems(2) by simp
  have u: "usable_path s (audio_path sc) = usable_path s' (audio_path sc)"
    using Cons.prems(1) aud by (rule agree_usable_path)
  have none: "\<forall>p. Some p \<in> set (vps @ [None]) \<longrightarrow> p \<in> A" using Cons.prems(3) by simp
  show ?case
  proof (cases "usable_path s' (audio_path sc)")
    case True
    have "\<forall>p. Some p \<in> set (vps @ [audio_path sc]) \<longrightarrow> p \<in> A" using Cons.prems(3) aud by auto
    from Cons.IH[OF Cons.prems(1) rest this, of "i + 1"] show ?thesis using True u by simp
  next
    case False
    show ?thesis
    proof (cases "get_dialogue sc \<noteq> []")
      case nodlg: False
      from Cons.IH[OF Cons.prems(1) rest none, of "i + 1"] show ?thesis using False u nodlg by simp
    next
      case dlg: True
      let ?t = "os_path_join DUMMY_SPEECH_DIR (''scene_'' @ str_of_nat (i + 1) @ ''.mp3'')"
      let ?x = "tts c (get_dialogue sc) (get_or (character_gender sc) ''Female'') (get_or (voice_style sc) ''Professional'')"
      show ?thesis
      proof (cases "?x = None \<or> \<not> writable c ?t")
        case True
        from Cons.IH[OF Cons.prems(1) rest none, of "i + 1"] show ?thesis using False u dlg True
          by (auto simp: generate_voiceover_def Let_def split: option.splits)
      next
        case ok: False
        then obtain b where b: "?x = Some b" and w: "writable c ?t" by auto
        have ag: "agree (insert ?t A) (s(?t \<mapsto> b)) (s'(?t \<mapsto> b))"
          using Cons.prems(1) by (rule agree_update_insert)
        have rest': "\<forall>sc\<in>set scs. \<forall>p. audio_path sc = Some p \<longrightarrow> p \<in> insert ?t A" using rest by simp
        have vp: "\<forall>p. Some p \<in> set (vps @ [Some ?t]) \<longrightarrow> p \<in> insert ?t A" using Cons.prems(3) by auto
        from Cons.IH[OF ag rest' vp, of "i + 1"] obtain A' where
          A': "insert ?t A \<subseteq> A'"
              "agree A' (fst (voiceover_loop c scs (i + 1) (s(?t \<mapsto> b)) (vps @ [Some ?t])))
                        (fst (voiceover_loop c scs (i + 1) (s'(?t \<mapsto> b)) (vps @ [Some ?t])))"
              "snd (voiceover_loop c scs (i + 1) (s(?t \<mapsto> b)) (vps @ [Some ?t])) =
               snd (voiceover_loop c scs (i + 1) (s'(?t \<mapsto> b)) (vps @ [Some ?t]))"
              "\<forall>p. Some p \<in> set (snd (voiceover_loop c scs (i + 1) (s(?t \<mapsto> b)) (vps @ [Some ?t]))) \<longrightarrow> p \<in> A'"
          by blast
        have e: "voiceover_loop c (sc # scs) i s vps = voiceover_loop c scs (i + 1) (s(?t \<mapsto> b)) (vps @ [Some ?t])"
                "voiceover_loop c (sc # scs) i s' vps = voiceover_loop c scs (i + 1) (s'(?t \<mapsto> b)) (vps @ [Some ?t])"
          using False u dlg b w by (simp_all add: generate_voiceover_def Let_def)
        have "A \<subseteq> A'" using A'(1) by auto
        then show ?thesis using A'(2,3,4) unfolding e by blast
      qed
    qed
  qed
qed

lemma agree_captions_loop:
  assumes "agree A s s'" "\<forall>p. Some p \<in> set vps \<longrightarrow> p \<in> A"
  shows "captions_loop s m res vps scs idx t ovs = captions_loop s' m res vps scs idx t ovs"
proof (induction scs arbitrary: idx t ovs)
  case Nil
  then show ?case by simp
next
  case (Cons sc scs)
  have "\<forall>p. path_at vps idx = Some p \<longrightarrow> p \<in> A"
    using assms(2) by (auto simp: path_at_def split: if_splits) (metis nth_mem)
  with assms(1) have "resolve_duration s sc (path_at vps idx) = resolve_duration s' sc (path_at vps idx)"
    by (rule agree_resolve_duration)
  then have "caption_duration s sc (path_at vps idx) = caption_duration s' sc (path_at vps idx)"
    by (simp add: caption_duration_eq)
  then show ?case using Cons.IH by (simp add: captions_loop_Cons caption_of_def)
qed


lemma generate_unfold:
  "scs \<noteq> [] \<Longrightarrow>
   snd (generate c m fs rnd (Some scs) td) =
     (let vps = snd (voiceover_loop c scs 0 fs []);
          fs1 = fst (voiceover_loop c scs 0 fs []);
          clips = snd (clips_loop c vps scs 0 fs1 []);
          fs2 = fst (clips_loop c vps scs 0 fs1 [])
      in if clips = [] then Inr None
         else (case stitch c clips of
                 None \<Rightarrow> Inr None
               | Some v \<Rightarrow>
                   if encode_ok c then
                     Inr (Some \<lparr>location = ''output_video_'' @ rnd @ ''.mp4'',
                                 film = \<lparr>video = v,
                                          overlays = fst (captions_loop fs2 m VIDEO_RESOLUTION vps scs 0 0 [])\<rparr>\<rparr>)
                   else Inl EncodeError))"
  by (simp add: generate_def Let_def split_beta add_captions_timed_def caption_overlays_def
        split: option.splits)

lemma rerun_same_film:
  assumes "\<forall>sc\<in>set scs. \<forall>p. audio_path sc = Some p \<or> image_path sc = Some p \<longrightarrow>
             fst (generate c m fs rnd1 (Some scs) td1) p = fs p"
  shows "map_sum id (map_option film) (snd (generate c m (fst (generate c m fs rnd1 (Some scs) td1)) rnd2 (Some scs) td2)) =
         map_sum id (map_option film) (snd (generate c m fs rnd1 (Some scs) td1))"
proof (cases "scs = []")
  case True
  then show ?thesis by (simp add: generate_def)
next
  case False
  let ?fs3 = "fst (generate c m fs rnd1 (Some scs) td1)"
  let ?A = "{p. fs p = ?fs3 p}"
  have ag: "agree ?A fs ?fs3" by (simp add: agree_def)
  have aud: "\<forall>sc\<in>set scs. \<forall>p. audio_path sc = Some p \<longrightarrow> p \<in> ?A"
   and img: "\<forall>sc\<in>set scs. \<forall>p. image_path sc = Some p \<longrightarrow> p \<in> ?A"
    using assms by auto
  let ?v = "voiceover_loop c scs 0 fs []"
  let ?v' = "voiceover_loop c scs 0 ?fs3 []"
  obtain A' where A': "?A \<subseteq> A'" "agree A' (fst ?v) (fst ?v')" "snd ?v = snd ?v'"
      "\<forall>p. Some p \<in> set (snd ?v) \<longrightarrow> p \<in> A'"
    using agree_voiceover_loop[OF ag aud, of "[]" c 0] by auto
  have img': "\<forall>sc\<in>set scs. \<forall>p. image_path sc = Some p \<longrightarrow> p \<in> A'"
    using img A'(1) by blast
  let ?k = "clips_loop c (snd ?v) scs 0 (fst ?v) []"
  let ?k' = "clips_loop c (snd ?v) scs 0 (fst ?v') []"
  have k: "agree A' (fst ?k) (fst ?k')" "snd ?k = snd ?k'"
    using agree_clips_loop[OF A'(2) img' A'(4), of c 0 "[]"] by simp_all
  have cap: "captions_loop (fst ?k) m VIDEO_RESOLUTION (snd ?v) scs 0 0 [] =
             captions_loop (fst ?k') m VIDEO_RESOLUTION (snd ?v) scs 0 0 []"
    using k(1) A'(4) by (rule agree_captions_loop)
  show ?thesis
    by (simp add: generate_unfold[OF False] Let_def A'(3)[symmetric] k(2)[symmetric] cap[symmetric]
          split: option.splits)
qed

lemma observers_of_film:
  "total_duration r = (case map_sum id (map_option film) (snd r) of
                         Inr (Some f) \<Rightarrow> Some (timeline_duration f) | _ \<Rightarrow> None)"
  "primary_times r = (case map_sum id (map_option film) (snd r) of
                        Inr (Some f) \<Rightarrow> map (\<lambda>(t, cl). (t, cdur cl)) (segments (video f)) | _ \<Rightarrow> [])"
  "caption_times r = (case map_sum id (map_option film) (snd r) of
                        Inr (Some f) \<Rightarrow>
                          map (\<lambda>cap. (cstart cap, clen cap, map (\<lambda>(x, y, line). line) (drawn cap))) (overlays f)
                      | _ \<Rightarrow> [])"
  by (simp_all add: total_duration_def primary_times_def caption_times_def split: sum.splits option.splits)

text \<open>
  C9 as stated fails, because a run changes the files that the next run reads. In the
  first script the first scene names as its audio a file that does not exist yet and
  that the speech of the second scene is written to: the first run resolves that scene
  to its nominal 5 and lasts 7; the second run, on the files the first one left, finds
  the audio, resolves the scene to 2 and lasts 4. In the second script the first scene
  names as its image a file that is not a picture and that the image of the second
  scene is saved to: the first run drops the first scene and lasts 3, the second run
  builds it and lasts 8.
\<close>

theorem C9_counterexample:
  "total_duration (generate stub mono_metric no_files ''00ff00ff'' cross_reference_script 10) = Some 7 \<and>
   total_duration
     (generate stub mono_metric
        (fst (generate stub mono_metric no_files ''00ff00ff'' cross_reference_script 10))
        ''00ff00ff'' cross_reference_script 10) = Some 4 \<and>
   total_duration (generate stub mono_metric junk_png ''00ff00ff'' junk_png_script 10) = Some 3 \<and>
   total_duration
     (generate stub mono_metric
        (fst (generate stub mono_metric junk_png ''00ff00ff'' junk_png_script 10))
        ''00ff00ff'' junk_png_script 10) = Some 8"
  by code_simp

text \<open>
  C9, amended. Running the pipeline again on the same script, with the same collaborator
  stubs, on the files that the first run left behind, yields the same total duration
  (and the same clip and caption times) as the first run, whatever random output names
  are drawn, provided the first run left unchanged every file that a scene names as its
  audio or as its image.
\<close>

theorem C9_rerun_same_duration:
  assumes "\<forall>sc\<in>set scs. \<forall>p. audio_path sc = Some p \<or> image_path sc = Some p \<longrightarrow>
             fst (generate c m fs rnd1 (Some scs) td1) p = fs p"
  shows "total_duration (generate c m (fst (generate c m fs rnd1 (Some scs) td1)) rnd2 (Some scs) td2) =
           total_duration (generate c m fs rnd1 (Some scs) td1) \<and>
         primary_times (generate c m (fst (generate c m fs rnd1 (Some scs) td1)) rnd2 (Some scs) td2) =
           primary_times (generate c m fs rnd1 (Some scs) td1) \<and>
         caption_times (generate c m (fst (generate c m fs rnd1 (Some scs) td1)) rnd2 (Some scs) td2) =
           caption_times (generate c m fs rnd1 (Some scs) td1)"
  by (simp only: observers_of_film rerun_same_film[OF assms] simp_thms)

theorem C9_witness:
  "total_duration (generate stub mono_metric (one_audio ''a.mp3'' 3) ''00ff00ff'' (Some steady_scenes) 10) = Some 5 \<and>
   total_duration
     (generate stub mono_metric
        (fst (generate stub mono_metric (one_audio ''a.mp3'' 3) ''00ff00ff'' (Some steady_scenes) 10))
        ''1234abcd'' (Some steady_scenes) 10) = Some 5"
proof -
  have e: "fst (generate stub mono_metric (one_audio ''a.mp3'' 3) ''00ff00ff'' (Some steady_scenes) 10) ''a.mp3''
           = one_audio ''a.mp3'' 3 ''a.mp3''"
    by code_simp
  have h: "\<forall>sc\<in>set steady_scenes. \<forall>p. audio_path sc = Some p \<or> image_path sc = Some p \<longrightarrow>
             fst (generate stub mono_metric (one_audio ''a.mp3'' 3) ''00ff00ff'' (Some steady_scenes) 10) p
               = one_audio ''a.mp3'' 3 p"
    using e by (simp add: steady_scenes_def blank_scene_def)
  have first: "total_duration (generate stub mono_metric (one_audio ''a.mp3'' 3) ''00ff00ff'' (Some steady_scenes) 10) = Some 5"
    by code_simp
  show ?thesis
    using C9_rerun_same_duration[OF h, of "''1234abcd''" 10] first by simp
qed

end
